theory Spec2Isabelle
  imports Complex_Main "HOL-Library.Monad_Syntax"
begin

section \<open>The Goehring polarity model: data\<close>

text \<open>
  The program (\<^verbatim>\<open>src/models/goehring.py\<close>) is a method-of-lines discretisation of a
  reaction-diffusion-advection system for two species A and P on a one-dimensional grid.
  Python floats are modelled by \<^typ>\<open>real\<close> (exact arithmetic: rounding, infinities and
  NaN are outside the model), Python integers by \<^typ>\<open>int\<close>, one-dimensional numpy
  arrays by \<^typ>\<open>real list\<close>.

  The function \<^verbatim>\<open>odefunc\<close> and its helpers read the resolved configuration
  \<^verbatim>\<open>kvals\<close>, a dict with string keys, as a struct: it is the record \<open>kvals\<close> below,
  one field per key the numerical code reads. The three function-valued entries
  (\<^verbatim>\<open>A_cyto\<close>, \<^verbatim>\<open>P_cyto\<close>, \<^verbatim>\<open>v_func\<close>) take \<^verbatim>\<open>kvals\<close> itself as their first
  argument, which a record field cannot do; they are kept in the record \<open>caps\<close> and passed
  next to \<open>kvals\<close>. They are total functions here: a capability that raises is outside
  the model. The exponents \<^verbatim>\<open>alpha\<close> and \<^verbatim>\<open>beta\<close> are natural numbers, as the defaults
  1 and 2 are.
\<close>

datatype error = AssertionError | ValueError | IndexError | TypeError | KeyError

record kvals =
  label :: string
  Nx :: int
  L :: real
  psi :: real
  D_A :: real
  D_P :: real
  k_onA :: real
  k_onP :: real
  k_offA :: real
  k_offP :: real
  k_AP :: real
  k_PA :: real
  rho_A :: real
  rho_P :: real
  alpha :: nat
  beta :: nat
  X :: "real list"
  deltax :: real

record caps =
  A_cyto :: "kvals \<Rightarrow> real list \<Rightarrow> real"
  P_cyto :: "kvals \<Rightarrow> real list \<Rightarrow> real"
  v_func :: "kvals \<Rightarrow> real \<Rightarrow> real \<Rightarrow> real"

text \<open>
  Indexing a one-dimensional array with a Python integer: a negative index counts from
  the end, and an index outside \<open>[-n, n)\<close> raises \<^verbatim>\<open>IndexError\<close>, which is \<open>None\<close> here.
\<close>

definition idx :: "real list \<Rightarrow> int \<Rightarrow> real option" where
  "idx Y i =
     (let j = (if i < 0 then i + int (length Y) else i)
      in if 0 \<le> j \<and> j < int (length Y) then Some (Y ! nat j) else None)"

definition set_idx :: "real list \<Rightarrow> int \<Rightarrow> real \<Rightarrow> real list option" where
  "set_idx Y i v =
     (let j = (if i < 0 then i + int (length Y) else i)
      in if 0 \<le> j \<and> j < int (length Y) then Some (Y[nat j := v]) else None)"

section \<open>Velocity field and cytoplasmic feedback\<close>

text \<open>\<^verbatim>\<open>default_v_func\<close>, line 8.\<close>

definition default_v_func :: "kvals \<Rightarrow> real \<Rightarrow> real \<Rightarrow> real" where
  "default_v_func kv x t =
     - x * (x - 190) * (x - 35) / (700000 * (max 1 \<bar>(t - 120) / 80\<bar>) ^ 2)"

text \<open>
  \<^verbatim>\<open>scipy.integrate.simpson(y, x)\<close> is library code. It is modelled after the library's
  algorithm for sample points \<open>x\<close> that need not be equally spaced: the composite
  Simpson rule over consecutive pairs of intervals (\<open>basic_simpson\<close>; a division whose
  divisor is zero yields zero there, as the library's guarded divisions do); for an even
  number of samples the last interval is added with the three-point correction of the
  library, and two samples are integrated by the trapezoid rule (the behaviour of SciPy
  1.11 and later; earlier releases treat an even number of samples differently). The
  library raises on arrays of different lengths and on empty arrays; the model is meant
  for \<open>x\<close> and \<open>y\<close> of one length, at least 1.
\<close>

definition simpson_panel :: "real \<Rightarrow> real \<Rightarrow> real \<Rightarrow> real \<Rightarrow> real \<Rightarrow> real \<Rightarrow> real" where
  "simpson_panel y0 y1 y2 x0 x1 x2 =
     (let h0 = x1 - x0; h1 = x2 - x1; hsum = h0 + h1; hprod = h0 * h1;
          h0divh1 = (if h1 \<noteq> 0 then h0 / h1 else 0)
      in hsum / 6 * (y0 * (2 - (if h0divh1 \<noteq> 0 then 1 / h0divh1 else 0))
                    + y1 * (hsum * (if hprod \<noteq> 0 then hsum / hprod else 0))
                    + y2 * (2 - h0divh1)))"

fun basic_simpson :: "real list \<Rightarrow> real list \<Rightarrow> real" where
  "basic_simpson (y0 # y1 # y2 # ys) (x0 # x1 # x2 # xs) =
     simpson_panel y0 y1 y2 x0 x1 x2 + basic_simpson (y2 # ys) (x2 # xs)"
| "basic_simpson ys xs = 0"

definition simpson_last :: "real \<Rightarrow> real \<Rightarrow> real \<Rightarrow> real \<Rightarrow> real \<Rightarrow> real \<Rightarrow> real" where
  "simpson_last y3 y2 y1 x3 x2 x1 =
     (let h0 = x2 - x3; h1 = x1 - x2;
          a = (if 6 * (h1 + h0) \<noteq> 0 then (2 * h1 ^ 2 + 3 * h0 * h1) / (6 * (h1 + h0)) else 0);
          b = (if 6 * h0 \<noteq> 0 then (h1 ^ 2 + 3 * h0 * h1) / (6 * h0) else 0);
          e = (if 6 * h0 * (h0 + h1) \<noteq> 0 then h1 ^ 3 / (6 * h0 * (h0 + h1)) else 0)
      in a * y1 + b * y2 - e * y3)"

definition simpson :: "real list \<Rightarrow> real list \<Rightarrow> real" where
  "simpson ys xs =
     (let n = length ys in
      if even n then
        (if n = 2 then 1 / 2 * (xs ! 1 - xs ! 0) * (ys ! 1 + ys ! 0)
         else basic_simpson ys xs
              + simpson_last (ys ! (n - 3)) (ys ! (n - 2)) (ys ! (n - 1))
                             (xs ! (n - 3)) (xs ! (n - 2)) (xs ! (n - 1)))
      else basic_simpson ys xs)"

text \<open>\<^verbatim>\<open>Ybar\<close>, \<^verbatim>\<open>default_A_cyto\<close>, \<^verbatim>\<open>default_P_cyto\<close>, lines 12 to 14.\<close>

definition Ybar :: "kvals \<Rightarrow> real list \<Rightarrow> real" where
  "Ybar kv Y = 2 * simpson Y (X kv) / L kv"

definition default_A_cyto :: "kvals \<Rightarrow> real list \<Rightarrow> real" where
  "default_A_cyto kv A = rho_A kv - psi kv * Ybar kv A"

definition default_P_cyto :: "kvals \<Rightarrow> real list \<Rightarrow> real" where
  "default_P_cyto kv P = rho_P kv - psi kv * Ybar kv P"

definition default_caps :: caps where
  "default_caps = \<lparr>A_cyto = default_A_cyto, P_cyto = default_P_cyto, v_func = default_v_func\<rparr>"

section \<open>Spatial discretisation and reaction kinetics\<close>

text \<open>\<^verbatim>\<open>disc_diffusion_term\<close>, lines 52 to 60. \<open>None\<close> is \<^verbatim>\<open>IndexError\<close>.\<close>

definition disc_diffusion_term :: "kvals \<Rightarrow> real list \<Rightarrow> int \<Rightarrow> real option" where
  "disc_diffusion_term kv Y x_i =
     (if x_i = 0 then
        do { a \<leftarrow> idx Y 1; b \<leftarrow> idx Y 0; c \<leftarrow> idx Y 1;
             Some ((a - 2 * b + c) / deltax kv ^ 2) }
      else if x_i = Nx kv - 1 then
        do { a \<leftarrow> idx Y (Nx kv - 2); b \<leftarrow> idx Y (Nx kv - 1); c \<leftarrow> idx Y (Nx kv - 2);
             Some ((a - 2 * b + c) / deltax kv ^ 2) }
      else
        do { a \<leftarrow> idx Y (x_i + 1); b \<leftarrow> idx Y x_i; c \<leftarrow> idx Y (x_i - 1);
             Some ((a - 2 * b + c) / deltax kv ^ 2) })"

text \<open>\<^verbatim>\<open>disc_spatial_derivative\<close>, lines 64 and 65; \<open>func\<close> may raise \<^verbatim>\<open>IndexError\<close>.\<close>

definition disc_spatial_derivative :: "kvals \<Rightarrow> (int \<Rightarrow> real option) \<Rightarrow> int \<Rightarrow> real option" where
  "disc_spatial_derivative kv func x_i =
     do { a \<leftarrow> func (x_i + 1); b \<leftarrow> func x_i; Some ((a - b) / deltax kv) }"

text \<open>\<^verbatim>\<open>R_A\<close> and \<^verbatim>\<open>R_P\<close>, lines 67 to 70.\<close>

definition R_A :: "kvals \<Rightarrow> real list \<Rightarrow> real list \<Rightarrow> real \<Rightarrow> real \<Rightarrow> int \<Rightarrow> real option" where
  "R_A kv A P A_cyto_r t x_i =
     do { a \<leftarrow> idx A x_i; p \<leftarrow> idx P x_i; a' \<leftarrow> idx A x_i;
          Some (k_onA kv * A_cyto_r - k_offA kv * a - k_AP kv * (p ^ alpha kv) * a') }"

definition R_P :: "kvals \<Rightarrow> real list \<Rightarrow> real list \<Rightarrow> real \<Rightarrow> real \<Rightarrow> int \<Rightarrow> real option" where
  "R_P kv A P P_cyto_r t x_i =
     do { p \<leftarrow> idx P x_i; a \<leftarrow> idx A x_i; p' \<leftarrow> idx P x_i;
          Some (k_onP kv * P_cyto_r - k_offP kv * p - k_PA kv * (a ^ beta kv) * p') }"

section \<open>The right-hand side\<close>

text \<open>
  The flux \<open>x_ii \<mapsto> v_func(kvals, X[x_ii], t) * Y[x_ii]\<close>, the lambda of lines 105 and 108.
\<close>

definition flux :: "caps \<Rightarrow> kvals \<Rightarrow> real \<Rightarrow> real list \<Rightarrow> int \<Rightarrow> real option" where
  "flux cp kv t Y x_ii =
     do { x \<leftarrow> idx (X kv) x_ii; y \<leftarrow> idx Y x_ii; Some (v_func cp kv x t * y) }"

text \<open>
  The value assigned at the right boundary, lines 94 to 96 (with \<open>D = D_A\<close>, \<open>Y = A\<close>,
  \<open>R = R_A(kvals, A, P, A_cyto_r, t, Nx - 1)\<close>) and lines 97 to 99 (with \<open>D_P\<close>, \<open>P\<close>,
  \<open>R_P\<close>): diffusion, minus the reflected flux difference, plus reaction.
\<close>

definition right_boundary :: "caps \<Rightarrow> kvals \<Rightarrow> real \<Rightarrow> real \<Rightarrow> real list \<Rightarrow> real option \<Rightarrow> real option" where
  "right_boundary cp kv t D Y R =
     do { d \<leftarrow> disc_diffusion_term kv Y (Nx kv - 1);
          x2 \<leftarrow> idx (X kv) (Nx kv - 2); y2 \<leftarrow> idx Y (Nx kv - 2);
          x1 \<leftarrow> idx (X kv) (Nx kv - 1); y1 \<leftarrow> idx Y (Nx kv - 1);
          r \<leftarrow> R;
          Some (D * d - (- v_func cp kv x2 t * y2 - v_func cp kv x1 t * y1) / deltax kv + r) }"

text \<open>
  The value assigned at node \<open>x_i\<close> inside the loop, lines 104 to 106 and 107 to 109.
\<close>

definition inside :: "caps \<Rightarrow> kvals \<Rightarrow> real \<Rightarrow> real \<Rightarrow> real list \<Rightarrow> real option \<Rightarrow> int \<Rightarrow> real option" where
  "inside cp kv t D Y R x_i =
     do { d \<leftarrow> disc_diffusion_term kv Y x_i;
          s \<leftarrow> disc_spatial_derivative kv (flux cp kv t Y) x_i;
          r \<leftarrow> R;
          Some (D * d - s + r) }"

text \<open>
  The loop of lines 103 to 109 over the node indices, updating both arrays in place.
\<close>

fun insides :: "caps \<Rightarrow> kvals \<Rightarrow> real \<Rightarrow> real list \<Rightarrow> real list \<Rightarrow> real \<Rightarrow> real \<Rightarrow> int list
    \<Rightarrow> real list \<times> real list \<Rightarrow> (real list \<times> real list) option" where
  "insides cp kv t A P A_cyto_r P_cyto_r [] (dudt_A, dudt_P) = Some (dudt_A, dudt_P)"
| "insides cp kv t A P A_cyto_r P_cyto_r (x_i # rest) (dudt_A, dudt_P) =
     do { a \<leftarrow> inside cp kv t (D_A kv) A (R_A kv A P A_cyto_r t x_i) x_i;
          dudt_A' \<leftarrow> set_idx dudt_A x_i a;
          p \<leftarrow> inside cp kv t (D_P kv) P (R_P kv A P P_cyto_r t x_i) x_i;
          dudt_P' \<leftarrow> set_idx dudt_P x_i p;
          insides cp kv t A P A_cyto_r P_cyto_r rest (dudt_A', dudt_P') }"

text \<open>
  The body of \<^verbatim>\<open>odefunc\<close> after the range check, lines 82 to 111.
\<close>

definition assemble :: "caps \<Rightarrow> real \<Rightarrow> real list \<Rightarrow> kvals \<Rightarrow> real list option" where
  "assemble cp t U kv =
     (let A = take (nat (Nx kv)) U;
          P = drop (nat (Nx kv)) U;
          dudt_A = replicate (nat (Nx kv)) 0;
          dudt_P = replicate (nat (Nx kv)) 0;
          A_cyto_r = A_cyto cp kv A;
          P_cyto_r = P_cyto cp kv P
      in do {
          a \<leftarrow> right_boundary cp kv t (D_A kv) A (R_A kv A P A_cyto_r t (Nx kv - 1));
          dudt_A \<leftarrow> set_idx dudt_A (Nx kv - 1) a;
          p \<leftarrow> right_boundary cp kv t (D_P kv) P (R_P kv A P P_cyto_r t (Nx kv - 1));
          dudt_P \<leftarrow> set_idx dudt_P (Nx kv - 1) p;
          (dudt_A, dudt_P) \<leftarrow> insides cp kv t A P A_cyto_r P_cyto_r [0 .. Nx kv - 2] (dudt_A, dudt_P);
          Some (dudt_A @ dudt_P) })"

text \<open>
  \<^verbatim>\<open>odefunc\<close>, lines 73 to 111. The length assertion and the divergence check both
  raise \<^verbatim>\<open>AssertionError\<close>; \<^verbatim>\<open>min\<close> of an empty sequence raises \<^verbatim>\<open>ValueError\<close>. The
  printing and the plot of the failure path are not modelled. This is the evaluation on
  a state vector of finite components; the check of line 77 on floats that may be NaN or
  infinite is \<open>odefunc_float\<close> below.
\<close>

definition odefunc :: "caps \<Rightarrow> real \<Rightarrow> real list \<Rightarrow> kvals \<Rightarrow> error + real list" where
  "odefunc cp t U kv =
     (if int (length U) \<noteq> 2 * Nx kv then Inl AssertionError
      else case U of
        [] \<Rightarrow> Inl ValueError
      | u # us \<Rightarrow>
          if fold min us u < - 100 \<or> fold max us u > 100 then Inl AssertionError
          else (case assemble cp t U kv of None \<Rightarrow> Inl IndexError | Some dudt \<Rightarrow> Inr dudt))"

section \<open>The divergence check on floats\<close>

text \<open>
  The state vector is an array of IEEE floats, which besides the real numbers holds the two
  infinities and NaN. A comparison with NaN is false, whatever the other side is.
\<close>

datatype pyfloat = Fin real | PInf | NInf | NaN

fun lt :: "pyfloat \<Rightarrow> pyfloat \<Rightarrow> bool" where
  "lt NaN y = False"
| "lt x NaN = False"
| "lt (Fin a) (Fin b) = (a < b)"
| "lt NInf NInf = False"
| "lt NInf y = True"
| "lt x NInf = False"
| "lt PInf y = False"
| "lt x PInf = True"

text \<open>
  The builtin \<^verbatim>\<open>min\<close> and \<^verbatim>\<open>max\<close> of line 77 scan the array from its first component
  and replace the value they hold by a component \<open>x\<close> when \<open>x < m\<close> (for \<^verbatim>\<open>min\<close>) or
  \<open>x > m\<close> (for \<^verbatim>\<open>max\<close>); on an empty array they raise \<^verbatim>\<open>ValueError\<close>.
\<close>

definition py_min :: "pyfloat list \<Rightarrow> error + pyfloat" where
  "py_min U = (case U of [] \<Rightarrow> Inl ValueError
               | u # us \<Rightarrow> Inr (fold (\<lambda>x m. if lt x m then x else m) us u))"

definition py_max :: "pyfloat list \<Rightarrow> error + pyfloat" where
  "py_max U = (case U of [] \<Rightarrow> Inl ValueError
               | u # us \<Rightarrow> Inr (fold (\<lambda>x m. if lt m x then x else m) us u))"

fun is_finite :: "pyfloat \<Rightarrow> bool" where
  "is_finite (Fin r) = True"
| "is_finite x = False"

fun finite_part :: "pyfloat \<Rightarrow> real" where
  "finite_part (Fin r) = r"
| "finite_part x = 0"

text \<open>
  \<^verbatim>\<open>odefunc\<close> on an array of floats, lines 73 to 111: the length assertion and the check
  of line 77 with the comparisons of floats. Arithmetic on floats does not raise, so
  whether the rest of the evaluation raises \<^verbatim>\<open>IndexError\<close> depends on the lengths of the
  arrays only; it is read off \<open>assemble\<close> on the vector with 0 in the place of every
  component that is not finite. On a vector of finite components the result is the
  result of \<open>assemble\<close>, as in \<open>odefunc\<close> above. On a vector with a component that is
  not finite the function returns an array whose values are outside the model:
  \<open>Returns_nonfinite\<close>.
\<close>

datatype outcome = Raises error | Returns "real list" | Returns_nonfinite

definition odefunc_float :: "caps \<Rightarrow> real \<Rightarrow> pyfloat list \<Rightarrow> kvals \<Rightarrow> outcome" where
  "odefunc_float cp t U kv =
     (if int (length U) \<noteq> 2 * Nx kv then Raises AssertionError
      else
       (case py_min U of Inl e \<Rightarrow> Raises e | Inr mn \<Rightarrow>
       (case py_max U of Inl e \<Rightarrow> Raises e | Inr mx \<Rightarrow>
          if lt mn (Fin (- 100)) \<or> lt (Fin 100) mx then Raises AssertionError
          else
           (case assemble cp t (map finite_part U) kv of None \<Rightarrow> Raises IndexError
            | Some dudt \<Rightarrow> if list_all is_finite U then Returns dudt else Returns_nonfinite))))"

section \<open>Closed forms of the node values\<close>

text \<open>
  The value of each term at node \<open>i\<close> of a grid whose arrays have the right length,
  written with plain list indexing. The lemmas below show that the functions of the
  program compute these values; the theorems are stated with them.
\<close>

definition diffusion_cf :: "real \<Rightarrow> real list \<Rightarrow> nat \<Rightarrow> real" where
  "diffusion_cf h Y i =
     (if i = 0 then (Y ! 1 - 2 * Y ! 0 + Y ! 1) / h ^ 2
      else if i = length Y - 1 then (Y ! (i - 1) - 2 * Y ! i + Y ! (i - 1)) / h ^ 2
      else (Y ! (i + 1) - 2 * Y ! i + Y ! (i - 1)) / h ^ 2)"

definition advection_cf :: "caps \<Rightarrow> kvals \<Rightarrow> real \<Rightarrow> real list \<Rightarrow> nat \<Rightarrow> real" where
  "advection_cf cp kv t Y i =
     (if i = length Y - 1
      then (- v_func cp kv (X kv ! (i - 1)) t * Y ! (i - 1) - v_func cp kv (X kv ! i) t * Y ! i) / deltax kv
      else (v_func cp kv (X kv ! (i + 1)) t * Y ! (i + 1) - v_func cp kv (X kv ! i) t * Y ! i) / deltax kv)"

definition reaction_A_cf :: "kvals \<Rightarrow> real list \<Rightarrow> real list \<Rightarrow> real \<Rightarrow> nat \<Rightarrow> real" where
  "reaction_A_cf kv A P A_cyto_r i =
     k_onA kv * A_cyto_r - k_offA kv * A ! i - k_AP kv * (P ! i ^ alpha kv) * A ! i"

definition reaction_P_cf :: "kvals \<Rightarrow> real list \<Rightarrow> real list \<Rightarrow> real \<Rightarrow> nat \<Rightarrow> real" where
  "reaction_P_cf kv A P P_cyto_r i =
     k_onP kv * P_cyto_r - k_offP kv * P ! i - k_PA kv * (A ! i ^ beta kv) * P ! i"

text \<open>
  The components of the right-hand side: diffusion, minus advection, plus reaction, with the
  cytoplasmic value resolved from the whole block.
\<close>

definition dudt_A_cf :: "caps \<Rightarrow> kvals \<Rightarrow> real \<Rightarrow> real list \<Rightarrow> real list \<Rightarrow> nat \<Rightarrow> real" where
  "dudt_A_cf cp kv t A P i =
     D_A kv * diffusion_cf (deltax kv) A i - advection_cf cp kv t A i
       + reaction_A_cf kv A P (A_cyto cp kv A) i"

definition dudt_P_cf :: "caps \<Rightarrow> kvals \<Rightarrow> real \<Rightarrow> real list \<Rightarrow> real list \<Rightarrow> nat \<Rightarrow> real" where
  "dudt_P_cf cp kv t A P i =
     D_P kv * diffusion_cf (deltax kv) P i - advection_cf cp kv t P i
       + reaction_P_cf kv A P (P_cyto cp kv P) i"

text \<open>
  The advective contribution at node \<open>i\<close> as the specification words it: the forward
  difference of the flux for \<open>i \<le> Nx - 2\<close>, and at \<open>Nx - 1\<close> the reflected formula with
  its leading minus sign.
\<close>

definition spec_advective_contribution :: "caps \<Rightarrow> kvals \<Rightarrow> real \<Rightarrow> real list \<Rightarrow> nat \<Rightarrow> real" where
  "spec_advective_contribution cp kv t Y i =
     (if i = length Y - 1
      then - ((- v_func cp kv (X kv ! (i - 1)) t * Y ! (i - 1)) - v_func cp kv (X kv ! i) t * Y ! i) / deltax kv
      else (v_func cp kv (X kv ! (i + 1)) t * Y ! (i + 1) - v_func cp kv (X kv ! i) t * Y ! i) / deltax kv)"

text \<open>
  The discrete mass of a block with the two boundary nodes weighted by one half (the
  trapezoid weights).
\<close>

definition trapezoid_mass :: "real list \<Rightarrow> real" where
  "trapezoid_mass Y = sum_list Y - (Y ! 0 + Y ! (length Y - 1)) / 2"

section \<open>Example configurations\<close>

text \<open>
  A grid of three nodes on \<open>[0, 2]\<close> with the default rate constants scaled to small
  rationals, the default cytoplasmic feedback and a constant velocity.
\<close>

definition kvals_ex :: kvals where
  "kvals_ex = \<lparr>label = ''ex'', Nx = 3, L = 4, psi = 1 / 4, D_A = 1 / 2, D_P = 1 / 4,
      k_onA = 1 / 8, k_onP = 1 / 4, k_offA = 1 / 2, k_offP = 1, k_AP = 2, k_PA = 2,
      rho_A = 3 / 2, rho_P = 1, alpha = 1, beta = 2, X = [0, 1, 2], deltax = 1\<rparr>"

definition caps_ex :: caps where
  "caps_ex = \<lparr>A_cyto = default_A_cyto, P_cyto = default_P_cyto, v_func = (\<lambda>kv x t. 1)\<rparr>"

text \<open>Pure advection: no diffusion and no reaction.\<close>

definition kvals_adv :: kvals where
  "kvals_adv = kvals_ex\<lparr>D_A := 0, D_P := 0, k_onA := 0, k_onP := 0, k_offA := 0, k_offP := 0,
      k_AP := 0, k_PA := 0\<rparr>"

text \<open>Pure diffusion: no reaction, and the velocity field is zero.\<close>

definition kvals_diff :: kvals where
  "kvals_diff = kvals_ex\<lparr>D_A := 1, D_P := 1, k_onA := 0, k_onP := 0, k_offA := 0, k_offP := 0,
      k_AP := 0, k_PA := 0\<rparr>"

definition caps_still :: caps where
  "caps_still = \<lparr>A_cyto = default_A_cyto, P_cyto = default_P_cyto, v_func = (\<lambda>kv x t. 0)\<rparr>"

text \<open>Equally spaced grids of five and of four nodes with spacing 1.\<close>

definition kvals_grid5 :: kvals where
  "kvals_grid5 = kvals_ex\<lparr>Nx := 5, L := 8, X := [0, 1, 2, 3, 4]\<rparr>"

definition kvals_grid4 :: kvals where
  "kvals_grid4 = kvals_ex\<lparr>Nx := 4, L := 6, X := [0, 1, 2, 3]\<rparr>"

section \<open>The driver\<close>

text \<open>
  \<^verbatim>\<open>run_model\<close> works on dicts: it merges the caller's dict over the global
  \<^verbatim>\<open>DEFAULT_PARAMETERS\<close>, tests for keys and assigns entries. Dicts are mutable
  objects, so they live in a store: a \<open>heap\<close> is the list of the dict objects allocated
  so far, and a reference is an index into it. A dict maps string keys to values; the
  values of this program are integers, floats, strings, arrays, and functions, which are
  named (\<open>Custom n\<close> is the \<open>n\<close>-th function supplied by a caller).

  A number is read from a value by \<open>as_float\<close>, and a sample count by \<open>as_index\<close>, which
  accepts integers only, as \<^verbatim>\<open>numpy.linspace\<close> does. Any other kind of value is a
  \<^verbatim>\<open>TypeError\<close> here; array-valued bounds, which numpy would broadcast, are outside the
  model.
\<close>

datatype capability = Default_A_cyto | Default_P_cyto | Default_v_func | Custom nat

datatype pyval = VInt int | VFloat real | VStr string | VArr "real list" | VFun capability

type_synonym dict = "string \<rightharpoonup> pyval"

type_synonym addr = nat

type_synonym heap = "dict list"

definition alloc :: "heap \<Rightarrow> dict \<Rightarrow> addr \<times> heap" where
  "alloc h d = (length h, h @ [d])"

definition setitem :: "heap \<Rightarrow> addr \<Rightarrow> string \<Rightarrow> pyval \<Rightarrow> heap" where
  "setitem h a k v = h[a := (h ! a)(k \<mapsto> v)]"

definition as_float :: "pyval \<Rightarrow> error + real" where
  "as_float v = (case v of VInt i \<Rightarrow> Inr (real_of_int i) | VFloat r \<Rightarrow> Inr r | _ \<Rightarrow> Inl TypeError)"

definition as_index :: "pyval \<Rightarrow> error + int" where
  "as_index v = (case v of VInt i \<Rightarrow> Inr i | _ \<Rightarrow> Inl TypeError)"

definition get_float :: "dict \<Rightarrow> string \<Rightarrow> error + real" where
  "get_float d k = (case d k of None \<Rightarrow> Inl KeyError | Some v \<Rightarrow> as_float v)"

definition get_index :: "dict \<Rightarrow> string \<Rightarrow> error + int" where
  "get_index d k = (case d k of None \<Rightarrow> Inl KeyError | Some v \<Rightarrow> as_index v)"

text \<open>\<^verbatim>\<open>DEFAULT_PARAMETERS\<close>, lines 16 to 49.\<close>

definition DEFAULT_PARAMETERS :: dict where
  "DEFAULT_PARAMETERS = map_of
     [(''label'', VStr ''goehring''),
      (''points_per_second'', VInt 2),
      (''Nx'', VInt 100),
      (''L'', VFloat 134.6),
      (''x0'', VInt 0),
      (''xL'', VFloat 67.3),
      (''t0'', VInt 0),
      (''tL'', VInt 5000),
      (''psi'', VFloat 0.174),
      (''D_A'', VFloat 0.28),
      (''D_P'', VFloat 0.15),
      (''k_onA'', VFloat (8.58 / 10 ^ 3)),
      (''k_onP'', VFloat (4.74 / 10 ^ 2)),
      (''k_offA'', VFloat (5.4 / 10 ^ 3)),
      (''k_offP'', VFloat (7.3 / 10 ^ 3)),
      (''k_AP'', VFloat 0.190),
      (''k_PA'', VFloat 2.0),
      (''rho_A'', VFloat 1.56),
      (''rho_P'', VFloat 1.0),
      (''alpha'', VInt 1),
      (''beta'', VInt 2),
      (''A_cyto'', VFun Default_A_cyto),
      (''P_cyto'', VFun Default_P_cyto),
      (''v_func'', VFun Default_v_func)]"

text \<open>
  \<^verbatim>\<open>numpy.linspace(start, stop, num)\<close> is library code, modelled after the library: a
  negative \<open>num\<close> raises \<^verbatim>\<open>ValueError\<close>; otherwise the samples are
  \<open>start + i * step\<close> for \<open>i < num\<close> with \<open>step = (stop - start) / (num - 1)\<close>, and the last
  of more than one sample is set to \<open>stop\<close>.
\<close>

definition linspace :: "real \<Rightarrow> real \<Rightarrow> int \<Rightarrow> error + real list" where
  "linspace start stop num =
     (if num < 0 then Inl ValueError
      else
        let dv = num - 1;
            delta = stop - start;
            y = map real [0..<nat num];
            y = (if dv > 0 then map (\<lambda>v. v * (delta / real_of_int dv)) y
                 else map (\<lambda>v. v * delta) y);
            y = map (\<lambda>v. v + start) y
        in Inr (if num > 1 then y[nat num - 1 := stop] else y))"

text \<open>\<^verbatim>\<open>int(x)\<close> of a float: truncation towards zero.\<close>

definition py_int :: "real \<Rightarrow> int" where
  "py_int r = (if 0 \<le> r then \<lfloor>r\<rfloor> else \<lceil>r\<rceil>)"

text \<open>
  \<^verbatim>\<open>numpy.ravel(rows, order='F')\<close> of a list of rows of one length: the entries column
  by column.
\<close>

definition ravel_F :: "real list list \<Rightarrow> real list" where
  "ravel_F rows =
     (case rows of [] \<Rightarrow> []
      | r # _ \<Rightarrow> concat (map (\<lambda>j. map (\<lambda>row. row ! j) rows) [0..<length r]))"

text \<open>
  Lines 118 and 119: the grid and its spacing, from the merged parameters. \<^verbatim>\<open>X[1]\<close>
  raises \<^verbatim>\<open>IndexError\<close> on a grid of fewer than two nodes.
\<close>

definition build_grid :: "dict \<Rightarrow> error + (real list \<times> real)" where
  "build_grid params =
     (case get_float params ''x0'' of Inl e \<Rightarrow> Inl e | Inr a \<Rightarrow>
     (case get_float params ''xL'' of Inl e \<Rightarrow> Inl e | Inr b \<Rightarrow>
     (case get_index params ''Nx'' of Inl e \<Rightarrow> Inl e | Inr n \<Rightarrow>
     (case linspace a b n of Inl e \<Rightarrow> Inl e | Inr Xs \<Rightarrow>
     (case idx Xs 1 of None \<Rightarrow> Inl IndexError | Some x1 \<Rightarrow>
     (case idx Xs 0 of None \<Rightarrow> Inl IndexError | Some x0 \<Rightarrow>
        Inr (Xs, \<bar>x1 - x0\<bar>)))))))"

text \<open>The right-hand side of the assignment of line 125.\<close>

definition t_eval_entry :: "dict \<Rightarrow> error + pyval" where
  "t_eval_entry kv =
     (case kv ''t_eval'' of Some v \<Rightarrow> Inr v
      | None \<Rightarrow>
         (case get_float kv ''t0'' of Inl e \<Rightarrow> Inl e | Inr a \<Rightarrow>
         (case get_float kv ''tL'' of Inl e \<Rightarrow> Inl e | Inr b \<Rightarrow>
         (case get_float kv ''points_per_second'' of Inl e \<Rightarrow> Inl e | Inr pps \<Rightarrow>
         (case linspace a b (py_int (pps * \<bar>b - a\<bar>)) of Inl e \<Rightarrow> Inl e
          | Inr ts \<Rightarrow> Inr (VArr ts))))))"

text \<open>The right-hand side of the assignment of line 128.\<close>

definition initial_condition_entry :: "dict \<Rightarrow> error + pyval" where
  "initial_condition_entry kv =
     (case kv ''initial_condition'' of Some v \<Rightarrow> Inr v
      | None \<Rightarrow>
         (case get_index kv ''Nx'' of Inl e \<Rightarrow> Inl e
          | Inr n \<Rightarrow> Inr (VArr (ravel_F (map (\<lambda>x_i. [0.5, 0.0]) [0 .. n - 1])))))"

text \<open>
  Lines 115 to 128 of \<^verbatim>\<open>run_model\<close>: everything before the call of the integrator. The
  arguments are the store, the reference of the global \<^verbatim>\<open>DEFAULT_PARAMETERS\<close> and the
  reference of the caller's dict \<^verbatim>\<open>args\<close>; the result is the reference of \<^verbatim>\<open>kvals\<close> or
  the exception raised, and the store at that point. Both dict displays
  (\<^verbatim>\<open>{**DEFAULT_PARAMETERS, **args}\<close> and \<^verbatim>\<open>{**params, "X": X, "deltax": deltax}\<close>)
  allocate a new dict.
\<close>

definition run_model_kvals :: "heap \<Rightarrow> addr \<Rightarrow> addr \<Rightarrow> (error + addr) \<times> heap" where
  "run_model_kvals h dflt args =
     (let (params, h) = alloc h ((h ! dflt) ++ (h ! args)) in
      (case build_grid (h ! params) of Inl e \<Rightarrow> (Inl e, h)
       | Inr (Xs, dx) \<Rightarrow>
          (let (kvals, h) = alloc h ((h ! params)(''X'' \<mapsto> VArr Xs, ''deltax'' \<mapsto> VFloat dx)) in
           (case t_eval_entry (h ! kvals) of Inl e \<Rightarrow> (Inl e, h)
            | Inr tv \<Rightarrow>
               (let h = setitem h kvals ''t_eval'' tv in
                (case initial_condition_entry (h ! kvals) of Inl e \<Rightarrow> (Inl e, h)
                 | Inr ic \<Rightarrow> (Inr kvals, setitem h kvals ''initial_condition'' ic)))))))"

text \<open>
  \<^verbatim>\<open>run_model\<close>, lines 114 to 133. The call
  \<^verbatim>\<open>integrate.solve_ivp(odefunc, [kvals["t0"], kvals["tL"]], kvals["initial_condition"], method="BDF", t_eval=kvals["t_eval"], args=(kvals,))\<close>
  is library code: it is the parameter \<open>solve_ivp\<close>, a function of the dict \<^verbatim>\<open>kvals\<close>
  that returns a solution or raises, and that leaves the store as it is.
\<close>

definition run_model :: "(dict \<Rightarrow> error + 'sol) \<Rightarrow> heap \<Rightarrow> addr \<Rightarrow> addr
    \<Rightarrow> (error + ('sol \<times> addr)) \<times> heap" where
  "run_model solve_ivp h dflt args =
     (case run_model_kvals h dflt args of
        (Inl e, h) \<Rightarrow> (Inl e, h)
      | (Inr kvals, h) \<Rightarrow>
          (case solve_ivp (h ! kvals) of Inl e \<Rightarrow> (Inl e, h)
           | Inr sol \<Rightarrow> (Inr (sol, kvals), h)))"

text \<open>
  Dicts of a caller for the examples, used in a store with \<^verbatim>\<open>DEFAULT_PARAMETERS\<close> at
  reference 0 and the caller's dict at reference 1: a small valid grid; a configuration
  with too few nodes, an empty domain, an empty time span and a velocity field that is no
  function; and a negative sampling rate.
\<close>

definition args_small :: dict where
  "args_small = map_of [(''Nx'', VInt 3), (''xL'', VInt 2), (''tL'', VInt 1)]"

definition args_invalid :: dict where
  "args_invalid = map_of [(''Nx'', VInt 2), (''xL'', VInt 0), (''tL'', VInt 0),
     (''v_func'', VStr ''no function'')]"

definition args_negative_rate :: dict where
  "args_negative_rate = map_of [(''Nx'', VInt 2), (''points_per_second'', VInt (- 1))]"

section \<open>The program computes the closed forms\<close>

lemma idx_int: "i = int k \<Longrightarrow> k < length Y \<Longrightarrow> idx Y i = Some (Y ! k)"
  by (simp add: idx_def)

lemma set_idx_int: "i = int k \<Longrightarrow> k < length Y \<Longrightarrow> set_idx Y i v = Some (Y[k := v])"
  by (simp add: set_idx_def)

lemma disc_diffusion_term_cf:
  assumes "Nx kv = int (length Y)" "2 \<le> length Y" "k < length Y"
  shows "disc_diffusion_term kv Y (int k) = Some (diffusion_cf (deltax kv) Y k)"
proof -
  consider "k = 0" | "k \<noteq> 0" "k = length Y - 1" | "k \<noteq> 0" "k \<noteq> length Y - 1" by blast
  then show ?thesis
  proof cases
    case 1
    have "idx Y 1 = Some (Y ! 1)"
      by (rule idx_int [where k = 1]) (use assms in arith)+
    moreover have "idx Y 0 = Some (Y ! 0)"
      by (rule idx_int [where k = 0]) (use assms in arith)+
    ultimately show ?thesis using 1 by (simp add: disc_diffusion_term_def diffusion_cf_def)
  next
    case 2
    have c: "int k \<noteq> 0" "int k = Nx kv - 1" using assms 2 by auto
    have "idx Y (Nx kv - 2) = Some (Y ! (k - 1))" "idx Y (Nx kv - 1) = Some (Y ! k)"
      by (rule idx_int; use assms 2 in arith)+
    then show ?thesis unfolding disc_diffusion_term_def diffusion_cf_def
      using 2 c by (simp only: simp_thms if_False if_True bind.bind_lunit)
  next
    case 3
    have c: "int k \<noteq> 0" "int k \<noteq> Nx kv - 1" using assms 3 by auto
    have "idx Y (int k + 1) = Some (Y ! (k + 1))" "idx Y (int k) = Some (Y ! k)"
         "idx Y (int k - 1) = Some (Y ! (k - 1))"
      by (rule idx_int; use assms 3 in arith)+
    then show ?thesis unfolding disc_diffusion_term_def diffusion_cf_def
      using 3 c by (simp only: simp_thms if_False if_True bind.bind_lunit)
  qed
qed

lemma flux_cf:
  assumes "k < length (X kv)" "k < length Y" "i = int k"
  shows "flux cp kv t Y i = Some (v_func cp kv (X kv ! k) t * Y ! k)"
  using assms by (simp add: flux_def idx_int)

lemma R_A_cf:
  assumes "k < length A" "k < length P"
  shows "R_A kv A P r t (int k) = Some (reaction_A_cf kv A P r k)"
  using assms by (simp add: R_A_def reaction_A_cf_def idx_int)

lemma R_P_cf:
  assumes "k < length A" "k < length P"
  shows "R_P kv A P r t (int k) = Some (reaction_P_cf kv A P r k)"
  using assms by (simp add: R_P_def reaction_P_cf_def idx_int)

lemma inside_cf:
  assumes "Nx kv = int (length Y)" "length (X kv) = length Y" "k + 1 < length Y"
  shows "inside cp kv t D Y (Some r) (int k) =
         Some (D * diffusion_cf (deltax kv) Y k - advection_cf cp kv t Y k + r)"
proof -
  have d: "disc_diffusion_term kv Y (int k) = Some (diffusion_cf (deltax kv) Y k)"
    by (rule disc_diffusion_term_cf) (use assms in arith)+
  have f1: "flux cp kv t Y (int k + 1) = Some (v_func cp kv (X kv ! (k + 1)) t * Y ! (k + 1))"
    by (rule flux_cf) (use assms in simp_all)
  have f0: "flux cp kv t Y (int k) = Some (v_func cp kv (X kv ! k) t * Y ! k)"
    by (rule flux_cf) (use assms in simp_all)
  have k: "k \<noteq> length Y - 1" using assms by arith
  show ?thesis unfolding inside_def disc_spatial_derivative_def advection_cf_def d f1 f0
    using k by (simp only: simp_thms if_False bind.bind_lunit)
qed

lemma right_boundary_cf:
  assumes "Nx kv = int (length Y)" "length (X kv) = length Y" "2 \<le> length Y"
  shows "right_boundary cp kv t D Y (Some r) =
         Some (D * diffusion_cf (deltax kv) Y (length Y - 1)
               - advection_cf cp kv t Y (length Y - 1) + r)"
proof -
  have e: "Nx kv - 1 = int (length Y - 1)" using assms by arith
  have d: "disc_diffusion_term kv Y (int (length Y - 1)) = Some (diffusion_cf (deltax kv) Y (length Y - 1))"
    by (rule disc_diffusion_term_cf) (use assms in arith)+
  have i: "idx (X kv) (Nx kv - 2) = Some (X kv ! (length Y - 1 - 1))"
          "idx Y (Nx kv - 2) = Some (Y ! (length Y - 1 - 1))"
          "idx (X kv) (int (length Y - 1)) = Some (X kv ! (length Y - 1))"
          "idx Y (int (length Y - 1)) = Some (Y ! (length Y - 1))"
    by (rule idx_int; use assms in arith)+
  show ?thesis unfolding right_boundary_def advection_cf_def e d i
    by (simp only: simp_thms if_True bind.bind_lunit)
qed

lemma insides_cf:
  assumes "\<forall>i\<in>set js. 0 \<le> i \<and> i < int n"
    and "length dA = n" "length dP = n"
    and "\<forall>i\<in>set js. inside cp kv t (D_A kv) A (R_A kv A P ra t i) i = Some (fA (nat i))"
    and "\<forall>i\<in>set js. inside cp kv t (D_P kv) P (R_P kv A P rp t i) i = Some (fP (nat i))"
  shows "\<exists>dA' dP'. insides cp kv t A P ra rp js (dA, dP) = Some (dA', dP')
           \<and> length dA' = n \<and> length dP' = n
           \<and> (\<forall>j<n. dA' ! j = (if int j \<in> set js then fA j else dA ! j))
           \<and> (\<forall>j<n. dP' ! j = (if int j \<in> set js then fP j else dP ! j))"
  using assms
proof (induction js arbitrary: dA dP)
  case Nil
  then show ?case by simp
next
  case (Cons i js)
  have i: "0 \<le> i" "i < int n" using Cons.prems(1) by simp_all
  have sA: "set_idx dA i (fA (nat i)) = Some (dA[nat i := fA (nat i)])"
    by (rule set_idx_int [where k = "nat i"]) (use i Cons.prems(2) in arith)+
  have sP: "set_idx dP i (fP (nat i)) = Some (dP[nat i := fP (nat i)])"
    by (rule set_idx_int [where k = "nat i"]) (use i Cons.prems(3) in arith)+
  have iA: "inside cp kv t (D_A kv) A (R_A kv A P ra t i) i = Some (fA (nat i))"
    and iP: "inside cp kv t (D_P kv) P (R_P kv A P rp t i) i = Some (fP (nat i))"
    using Cons.prems by simp_all
  have step: "insides cp kv t A P ra rp (i # js) (dA, dP)
      = insides cp kv t A P ra rp js (dA[nat i := fA (nat i)], dP[nat i := fP (nat i)])"
    by (simp add: iA iP sA sP)
  obtain dA' dP' where r: "insides cp kv t A P ra rp js (dA[nat i := fA (nat i)], dP[nat i := fP (nat i)]) = Some (dA', dP')"
    "length dA' = n" "length dP' = n"
    "\<forall>j<n. dA' ! j = (if int j \<in> set js then fA j else dA[nat i := fA (nat i)] ! j)"
    "\<forall>j<n. dP' ! j = (if int j \<in> set js then fP j else dP[nat i := fP (nat i)] ! j)"
    using Cons.IH [of "dA[nat i := fA (nat i)]" "dP[nat i := fP (nat i)]"] Cons.prems
    by auto
  have "\<forall>j<n. dA' ! j = (if int j \<in> set (i # js) then fA j else dA ! j)"
    using r(4) i Cons.prems(2) by (auto simp add: nth_list_update)
  moreover have "\<forall>j<n. dP' ! j = (if int j \<in> set (i # js) then fP j else dP ! j)"
    using r(5) i Cons.prems(3) by (auto simp add: nth_list_update)
  ultimately show ?case using step r(1,2,3) by simp
qed

lemma assemble_cf:
  assumes nx: "Nx kv = int n" and n2: "2 \<le> n" and lu: "length U = 2 * n" and lx: "length (X kv) = n"
  shows "assemble cp t U kv =
           Some (map (dudt_A_cf cp kv t (take n U) (drop n U)) [0..<n]
                 @ map (dudt_P_cf cp kv t (take n U) (drop n U)) [0..<n])"
proof -
  define A where "A = take n U"
  define P where "P = drop n U"
  define ra where "ra = A_cyto cp kv A"
  define rp where "rp = P_cyto cp kv P"
  define fA where "fA = dudt_A_cf cp kv t A P"
  define fP where "fP = dudt_P_cf cp kv t A P"
  define z where "z = replicate n (0::real)"
  have lA: "length A = n" and lP: "length P = n" using lu by (simp_all add: A_def P_def)
  have nA: "Nx kv = int (length A)" and nP: "Nx kv = int (length P)" using nx lA lP by simp_all
  have xA: "length (X kv) = length A" and xP: "length (X kv) = length P" using lx lA lP by simp_all
  have e1: "Nx kv - 1 = int (n - 1)" using nx n2 by arith
  have rA: "R_A kv A P ra t (Nx kv - 1) = Some (reaction_A_cf kv A P ra (n - 1))"
    unfolding e1 by (rule R_A_cf) (use lA lP n2 in arith)+
  have rP: "R_P kv A P rp t (Nx kv - 1) = Some (reaction_P_cf kv A P rp (n - 1))"
    unfolding e1 by (rule R_P_cf) (use lA lP n2 in arith)+
  have bA: "right_boundary cp kv t (D_A kv) A (R_A kv A P ra t (Nx kv - 1)) = Some (fA (n - 1))"
    unfolding rA using right_boundary_cf [OF nA xA, of cp t "D_A kv" "reaction_A_cf kv A P ra (n - 1)"] n2 lA
    by (simp add: fA_def dudt_A_cf_def ra_def)
  have bP: "right_boundary cp kv t (D_P kv) P (R_P kv A P rp t (Nx kv - 1)) = Some (fP (n - 1))"
    unfolding rP using right_boundary_cf [OF nP xP, of cp t "D_P kv" "reaction_P_cf kv A P rp (n - 1)"] n2 lP
    by (simp add: fP_def dudt_P_cf_def rp_def)
  have sA: "set_idx z (Nx kv - 1) (fA (n - 1)) = Some (z[n - 1 := fA (n - 1)])"
    unfolding e1 by (rule set_idx_int) (use n2 in \<open>simp_all add: z_def\<close>)
  have sP: "set_idx z (Nx kv - 1) (fP (n - 1)) = Some (z[n - 1 := fP (n - 1)])"
    unfolding e1 by (rule set_idx_int) (use n2 in \<open>simp_all add: z_def\<close>)
  have inA: "\<forall>i\<in>set [0 .. Nx kv - 2]. inside cp kv t (D_A kv) A (R_A kv A P ra t i) i = Some (fA (nat i))"
  proof
    fix i assume "i \<in> set [0 .. Nx kv - 2]"
    then have i: "i = int (nat i)" "nat i + 1 < n" using nx by auto
    have "R_A kv A P ra t (int (nat i)) = Some (reaction_A_cf kv A P ra (nat i))"
      by (rule R_A_cf) (use i lA lP in arith)+
    moreover have "inside cp kv t (D_A kv) A (Some (reaction_A_cf kv A P ra (nat i))) (int (nat i))
        = Some (D_A kv * diffusion_cf (deltax kv) A (nat i) - advection_cf cp kv t A (nat i)
                + reaction_A_cf kv A P ra (nat i))"
      by (rule inside_cf [OF nA xA]) (use i lA in arith)
    ultimately show "inside cp kv t (D_A kv) A (R_A kv A P ra t i) i = Some (fA (nat i))"
      using i(1) by (simp add: fA_def dudt_A_cf_def ra_def)
  qed
  have inP: "\<forall>i\<in>set [0 .. Nx kv - 2]. inside cp kv t (D_P kv) P (R_P kv A P rp t i) i = Some (fP (nat i))"
  proof
    fix i assume "i \<in> set [0 .. Nx kv - 2]"
    then have i: "i = int (nat i)" "nat i + 1 < n" using nx by auto
    have "R_P kv A P rp t (int (nat i)) = Some (reaction_P_cf kv A P rp (nat i))"
      by (rule R_P_cf) (use i lA lP in arith)+
    moreover have "inside cp kv t (D_P kv) P (Some (reaction_P_cf kv A P rp (nat i))) (int (nat i))
        = Some (D_P kv * diffusion_cf (deltax kv) P (nat i) - advection_cf cp kv t P (nat i)
                + reaction_P_cf kv A P rp (nat i))"
      by (rule inside_cf [OF nP xP]) (use i lP in arith)
    ultimately show "inside cp kv t (D_P kv) P (R_P kv A P rp t i) i = Some (fP (nat i))"
      using i(1) by (simp add: fP_def dudt_P_cf_def rp_def)
  qed
  have rng: "\<forall>i\<in>set [0 .. Nx kv - 2]. 0 \<le> i \<and> i < int n" using nx by auto
  obtain dA' dP' where r:
    "insides cp kv t A P ra rp [0 .. Nx kv - 2] (z[n - 1 := fA (n - 1)], z[n - 1 := fP (n - 1)]) = Some (dA', dP')"
    "length dA' = n" "length dP' = n"
    "\<forall>j<n. dA' ! j = (if int j \<in> set [0 .. Nx kv - 2] then fA j else z[n - 1 := fA (n - 1)] ! j)"
    "\<forall>j<n. dP' ! j = (if int j \<in> set [0 .. Nx kv - 2] then fP j else z[n - 1 := fP (n - 1)] ! j)"
    using insides_cf [OF rng _ _ inA inP, of "z[n - 1 := fA (n - 1)]" "z[n - 1 := fP (n - 1)]"]
    by (auto simp add: z_def)
  have dA: "dA' = map fA [0..<n]"
  proof (rule nth_equalityI)
    show "length dA' = length (map fA [0..<n])" using r(2) by simp
  next
    fix j assume "j < length dA'"
    then have j: "j < n" using r(2) by simp
    then have "dA' ! j = fA j"
      using r(4) nx n2 by (cases "j = n - 1") (auto simp add: z_def)
    then show "dA' ! j = map fA [0..<n] ! j" using j by simp
  qed
  have dP: "dP' = map fP [0..<n]"
  proof (rule nth_equalityI)
    show "length dP' = length (map fP [0..<n])" using r(3) by simp
  next
    fix j assume "j < length dP'"
    then have j: "j < n" using r(3) by simp
    then have "dP' ! j = fP j"
      using r(5) nx n2 by (cases "j = n - 1") (auto simp add: z_def)
    then show "dP' ! j = map fP [0..<n] ! j" using j by simp
  qed
  have nn: "nat (Nx kv) = n" using nx by simp
  have "assemble cp t U kv = Some (dA' @ dP')"
    unfolding assemble_def Let_def nn
    unfolding A_def [symmetric] P_def [symmetric] ra_def [symmetric] rp_def [symmetric] z_def [symmetric]
    by (simp only: bA bP sA sP r(1) bind.bind_lunit prod.case)
  then show ?thesis by (simp add: dA dP fA_def fP_def A_def P_def)
qed

lemma fold_min_less: "fold min us u < (c::real) \<longleftrightarrow> (\<exists>x\<in>set (u # us). x < c)"
proof -
  have "fold min us u = Min (set (u # us))" by (rule Min.set_eq_fold [symmetric])
  then show ?thesis by (simp add: Min_less_iff del: set_simps) 
qed

lemma fold_max_greater: "(c::real) < fold max us u \<longleftrightarrow> (\<exists>x\<in>set (u # us). c < x)"
proof -
  have "fold max us u = Max (set (u # us))" by (rule Max.set_eq_fold [symmetric])
  then show ?thesis by (simp add: Max_gr_iff del: set_simps)
qed

lemma odefunc_cf:
  assumes nx: "Nx kv = int n" and n2: "2 \<le> n" and lu: "length U = 2 * n" and lx: "length (X kv) = n"
  shows "odefunc cp t U kv =
           (if \<exists>u\<in>set U. u < - 100 \<or> 100 < u then Inl AssertionError
            else Inr (map (dudt_A_cf cp kv t (take n U) (drop n U)) [0..<n]
                      @ map (dudt_P_cf cp kv t (take n U) (drop n U)) [0..<n]))"
proof -
  obtain u us where U: "U = u # us" using lu n2 by (cases U) auto
  have l: "int (length U) = 2 * Nx kv" using nx lu by simp
  have c: "(fold min us u < - 100 \<or> fold max us u > 100) \<longleftrightarrow> (\<exists>x\<in>set U. x < - 100 \<or> 100 < x)"
    unfolding fold_min_less fold_max_greater U by blast
  show ?thesis
    unfolding odefunc_def assemble_cf [OF nx n2 lu lx] using l c U by simp
qed

lemma interior_telescope:
  fixes Y :: "real list"
  shows "1 \<le> m \<Longrightarrow> (\<Sum>i = 1..<m. Y ! (i + 1) - 2 * Y ! i + Y ! (i - 1))
           = (Y ! m - Y ! (m - 1)) - (Y ! 1 - Y ! 0)"
proof (induction m rule: dec_induct)
  case base
  then show ?case by simp
next
  case (step m)
  then show ?case by (simp add: algebra_simps)
qed

lemma sum_diffusion_cf:
  assumes "length Y = n" "2 \<le> n"
  shows "sum_list (map (diffusion_cf h Y) [0..<n])
           = ((Y ! 1 - Y ! 0) - (Y ! (n - 1) - Y ! (n - 2))) / h ^ 2"
proof -
  have s: "{0..<n} = insert 0 (insert (n - 1) {1..<n - 1})" using assms(2) by auto
  have n1: "n - 1 \<noteq> 0" "n - 1 - 1 = n - 2" using assms(2) by arith+
  have i: "\<And>i. i \<in> {1..<n - 1} \<Longrightarrow>
      diffusion_cf h Y i = (Y ! (i + 1) - 2 * Y ! i + Y ! (i - 1)) / h ^ 2"
    using assms by (auto simp add: diffusion_cf_def)
  have b0: "diffusion_cf h Y 0 = (2 * (Y ! 1 - Y ! 0)) / h ^ 2"
    by (simp add: diffusion_cf_def)
  have b1: "diffusion_cf h Y (n - 1) = (2 * (Y ! (n - 2) - Y ! (n - 1))) / h ^ 2"
    using assms(1) n1 by (simp add: diffusion_cf_def)
  have "sum (diffusion_cf h Y) {1..<n - 1}
      = (\<Sum>i = 1..<n - 1. (Y ! (i + 1) - 2 * Y ! i + Y ! (i - 1)) / h ^ 2)"
    by (rule sum.cong) (use i in simp_all)
  also have "\<dots> = (\<Sum>i = 1..<n - 1. Y ! (i + 1) - 2 * Y ! i + Y ! (i - 1)) / h ^ 2"
    by (simp add: sum_divide_distrib)
  also have "(\<Sum>i = 1..<n - 1. Y ! (i + 1) - 2 * Y ! i + Y ! (i - 1))
      = (Y ! (n - 1) - Y ! (n - 1 - 1)) - (Y ! 1 - Y ! 0)"
    by (rule interior_telescope) (use assms(2) in arith)
  finally have mid: "sum (diffusion_cf h Y) {1..<n - 1}
      = ((Y ! (n - 1) - Y ! (n - 2)) - (Y ! 1 - Y ! 0)) / h ^ 2"
    unfolding n1(2) .
  have "sum_list (map (diffusion_cf h Y) [0..<n]) = sum (diffusion_cf h Y) {0..<n}"
    by (simp add: interv_sum_list_conv_sum_set_nat)
  also have "\<dots> = diffusion_cf h Y 0 + (diffusion_cf h Y (n - 1) + sum (diffusion_cf h Y) {1..<n - 1})"
    unfolding s using n1(1) by simp
  also have "\<dots> = (2 * (Y ! 1 - Y ! 0) + (2 * (Y ! (n - 2) - Y ! (n - 1))
        + ((Y ! (n - 1) - Y ! (n - 2)) - (Y ! 1 - Y ! 0)))) / h ^ 2"
    unfolding b0 b1 mid by (simp only: add_divide_distrib)
  also have "2 * (Y ! 1 - Y ! 0) + (2 * (Y ! (n - 2) - Y ! (n - 1))
        + ((Y ! (n - 1) - Y ! (n - 2)) - (Y ! 1 - Y ! 0)))
      = (Y ! 1 - Y ! 0) - (Y ! (n - 1) - Y ! (n - 2))"
    by simp
  finally show ?thesis .
qed

lemma trapezoid_diffusion_cf:
  assumes "length Y = n" "2 \<le> n"
  shows "trapezoid_mass (map (\<lambda>i. D * diffusion_cf h Y i) [0..<n]) = 0"
proof -
  have n1: "n - 1 \<noteq> 0" "n - 1 - 1 = n - 2" "0 < n" "n - 1 < n" using assms(2) by arith+
  have b0: "diffusion_cf h Y 0 = (2 * (Y ! 1 - Y ! 0)) / h ^ 2"
    by (simp add: diffusion_cf_def)
  have b1: "diffusion_cf h Y (n - 1) = (2 * (Y ! (n - 2) - Y ! (n - 1))) / h ^ 2"
    using assms(1) n1 by (simp add: diffusion_cf_def)
  have s: "sum_list (map (\<lambda>i. D * diffusion_cf h Y i) [0..<n])
      = D * (((Y ! 1 - Y ! 0) - (Y ! (n - 1) - Y ! (n - 2))) / h ^ 2)"
    using sum_diffusion_cf [OF assms, of h] by (simp add: sum_list_const_mult)
  have e: "map (\<lambda>i. D * diffusion_cf h Y i) [0..<n] ! 0 = D * diffusion_cf h Y 0"
      "map (\<lambda>i. D * diffusion_cf h Y i) [0..<n] ! (n - 1) = D * diffusion_cf h Y (n - 1)"
    using n1(3,4) by simp_all
  have "trapezoid_mass (map (\<lambda>i. D * diffusion_cf h Y i) [0..<n])
      = D * (((Y ! 1 - Y ! 0) - (Y ! (n - 1) - Y ! (n - 2))) / h ^ 2)
        - (D * ((2 * (Y ! 1 - Y ! 0)) / h ^ 2) + D * ((2 * (Y ! (n - 2) - Y ! (n - 1))) / h ^ 2)) / 2"
    unfolding trapezoid_mass_def s by (simp only: length_map length_upt diff_zero e b0 b1)
  also have "\<dots> = 0"
    by (simp add: diff_divide_distrib add_divide_distrib algebra_simps)
  finally show ?thesis .
qed

lemma simpson_panel_const:
  assumes "x0 < x1" "x1 < x2"
  shows "simpson_panel c c c x0 x1 x2 = c * (x2 - x0)"
proof -
  define h0 where "h0 = x1 - x0"
  define h1 where "h1 = x2 - x1"
  have h: "h0 > 0" "h1 > 0" using assms by (simp_all add: h0_def h1_def)
  then have nz: "h0 \<noteq> 0" "h1 \<noteq> 0" "h0 / h1 \<noteq> 0" "h0 * h1 \<noteq> 0" by simp_all
  have "simpson_panel c c c x0 x1 x2
      = (h0 + h1) / 6 * (c * (2 - 1 / (h0 / h1)) + c * ((h0 + h1) * ((h0 + h1) / (h0 * h1)))
          + c * (2 - h0 / h1))"
    unfolding simpson_panel_def Let_def h0_def [symmetric] h1_def [symmetric] using nz by simp
  also have "\<dots> = c * (h0 + h1)"
    using nz(1,2) by (simp add: field_simps power2_eq_square)
  also have "h0 + h1 = x2 - x0" by (simp add: h0_def h1_def)
  finally show ?thesis .
qed

lemma simpson_last_const:
  assumes "x3 < x2" "x2 < x1"
  shows "simpson_last c c c x3 x2 x1 = c * (x1 - x2)"
proof -
  define h0 where "h0 = x2 - x3"
  define h1 where "h1 = x1 - x2"
  define s where "s = h0 + h1"
  define p1 where "p1 = 2 * h1 ^ 2 + 3 * h0 * h1"
  define p2 where "p2 = h1 ^ 2 + 3 * h0 * h1"
  have h: "h0 > 0" "h1 > 0" using assms by (simp_all add: h0_def h1_def)
  then have "s > 0" by (simp add: s_def)
  then have nz: "h0 \<noteq> 0" "s \<noteq> 0" "h0 * (6 * s) \<noteq> 0" using h by simp_all
  have c: "h1 + h0 = s" "6 * h0 * s = h0 * (6 * s)" by (simp_all add: s_def)
  have t1: "p1 / (6 * s) = (h0 * p1) / (h0 * (6 * s))" using nz by simp
  have "p2 / (6 * h0) = (s * p2) / (s * (6 * h0))" using nz by simp
  also have "s * (6 * h0) = h0 * (6 * s)" by simp
  finally have t2: "p2 / (6 * h0) = (s * p2) / (h0 * (6 * s))" .
  have num: "h0 * p1 + s * p2 - h1 ^ 3 = h1 * (h0 * (6 * s))"
    by (simp add: p1_def p2_def s_def algebra_simps power2_eq_square power3_eq_cube)
  have "simpson_last c c c x3 x2 x1
      = p1 / (6 * s) * c + p2 / (6 * h0) * c - h1 ^ 3 / (h0 * (6 * s)) * c"
    unfolding simpson_last_def Let_def h0_def [symmetric] h1_def [symmetric]
      s_def [symmetric] c p1_def [symmetric] p2_def [symmetric]
    using nz by simp
  also have "\<dots> = (h0 * p1 + s * p2 - h1 ^ 3) / (h0 * (6 * s)) * c"
    unfolding t1 t2 by (simp only: add_divide_distrib diff_divide_distrib distrib_right left_diff_distrib)
  also have "\<dots> = h1 * c" unfolding num using nz(3) by simp
  finally show ?thesis by (simp add: h1_def)
qed

lemma basic_simpson_const:
  assumes "length ys = length xs" "\<forall>y\<in>set ys. y = c" "sorted_wrt (<) xs" "xs \<noteq> []"
  shows "basic_simpson ys xs = c * (xs ! (2 * ((length xs - 1) div 2)) - xs ! 0)"
  using assms
proof (induction ys xs rule: basic_simpson.induct)
  case (1 y0 y1 y2 ys x0 x1 x2 xs)
  have ih: "basic_simpson (y2 # ys) (x2 # xs)
      = c * ((x2 # xs) ! (2 * ((length (x2 # xs) - 1) div 2)) - (x2 # xs) ! 0)"
    by (rule "1.IH") (use "1.prems" in simp_all)
  have p: "simpson_panel y0 y1 y2 x0 x1 x2 = c * (x2 - x0)"
    using simpson_panel_const [of x0 x1 x2 c] "1.prems" by simp
  have e: "2 * ((length (x0 # x1 # x2 # xs) - 1) div 2) = Suc (Suc (2 * ((length (x2 # xs) - 1) div 2)))"
    by simp
  show ?case unfolding basic_simpson.simps ih p e by (simp add: algebra_simps)
qed (simp_all)

lemma simpson_const:
  assumes "length xs = n" "2 \<le> n" "sorted_wrt (<) xs"
  shows "simpson (replicate n c) xs = c * (last xs - hd xs)"
proof -
  have ne: "xs \<noteq> []" using assms by auto
  have hl: "hd xs = xs ! 0" "last xs = xs ! (n - 1)"
    using ne assms(1) by (simp_all add: hd_conv_nth last_conv_nth)
  have b: "basic_simpson (replicate n c) xs = c * (xs ! (2 * ((n - 1) div 2)) - xs ! 0)"
    using basic_simpson_const [of "replicate n c" xs c] assms ne by simp
  show ?thesis
  proof (cases "even n")
    case False
    then have "2 * ((n - 1) div 2) = n - 1" by presburger
    then show ?thesis using False b by (simp add: simpson_def hl)
  next
    case True
    show ?thesis
    proof (cases "n = 2")
      case n2: True
      then show ?thesis using hl by (simp add: simpson_def algebra_simps)
    next
      case n4: False
      then have n: "4 \<le> n" using True assms(2) by presburger
      have i: "2 * ((n - 1) div 2) = n - 2" using True n by presburger
      have lt: "xs ! (n - 3) < xs ! (n - 2)" "xs ! (n - 2) < xs ! (n - 1)"
        using assms(1,3) n by (auto simp add: sorted_wrt_iff_nth_less)
      have r: "replicate n c ! (n - 3) = c" "replicate n c ! (n - 2) = c" "replicate n c ! (n - 1) = c"
        using n by simp_all
      have "simpson (replicate n c) xs
          = basic_simpson (replicate n c) xs
            + simpson_last c c c (xs ! (n - 3)) (xs ! (n - 2)) (xs ! (n - 1))"
        using True n4 r by (simp add: simpson_def)
      also have "\<dots> = c * (xs ! (n - 2) - xs ! 0) + c * (xs ! (n - 1) - xs ! (n - 2))"
        unfolding b i simpson_last_const [OF lt] ..
      finally show ?thesis by (simp add: hl algebra_simps)
    qed
  qed
qed

text \<open>The check of line 77 on floats.\<close>

lemma lt_NaN_right: "lt x NaN = False"
  by (cases x) simp_all

lemma fold_min_NaN: "fold (\<lambda>x m. if lt x m then x else m) us NaN = NaN"
  by (induction us) (simp_all add: lt_NaN_right)

lemma fold_max_NaN: "fold (\<lambda>x m. if lt m x then x else m) us NaN = NaN"
  by (induction us) simp_all

lemma lt_trans: "lt x y \<Longrightarrow> lt y z \<Longrightarrow> lt x z"
  by (cases x; cases y; cases z) simp_all

lemma lt_not_NaN: "lt x y \<Longrightarrow> x \<noteq> NaN \<and> y \<noteq> NaN"
  by (cases x; cases y) simp_all

lemma lt_total: "x \<noteq> NaN \<Longrightarrow> y \<noteq> NaN \<Longrightarrow> \<not> lt x y \<Longrightarrow> lt x z \<Longrightarrow> lt y z"
  by (cases x; cases y; cases z) simp_all

lemma lt_total': "x \<noteq> NaN \<Longrightarrow> y \<noteq> NaN \<Longrightarrow> \<not> lt y x \<Longrightarrow> lt z x \<Longrightarrow> lt z y"
  by (cases x; cases y; cases z) simp_all

lemma fold_min_lt:
  "u \<noteq> NaN \<Longrightarrow>
     lt (fold (\<lambda>x m. if lt x m then x else m) us u) c \<longleftrightarrow> (\<exists>x\<in>set (u # us). lt x c)"
proof (induction us arbitrary: u)
  case Nil
  then show ?case by simp
next
  case (Cons a us)
  show ?case
  proof (cases "lt a u")
    case True
    then have a: "a \<noteq> NaN" using lt_not_NaN by blast
    have "lt u c \<Longrightarrow> lt a c" using True lt_trans by blast
    then show ?thesis using Cons.IH [OF a] True by auto
  next
    case False
    have "lt a c \<Longrightarrow> lt u c"
    proof (cases "a = NaN")
      case True
      then show "lt a c \<Longrightarrow> lt u c" by simp
    next
      case F: False
      assume "lt a c"
      then show "lt u c" using lt_total [OF F Cons.prems False] by blast
    qed
    then show ?thesis using Cons.IH [OF Cons.prems] False by auto
  qed
qed

lemma fold_max_lt:
  "u \<noteq> NaN \<Longrightarrow>
     lt c (fold (\<lambda>x m. if lt m x then x else m) us u) \<longleftrightarrow> (\<exists>x\<in>set (u # us). lt c x)"
proof (induction us arbitrary: u)
  case Nil
  then show ?case by simp
next
  case (Cons a us)
  show ?case
  proof (cases "lt u a")
    case True
    then have a: "a \<noteq> NaN" using lt_not_NaN by blast
    have "lt c u \<Longrightarrow> lt c a" using True lt_trans by blast
    then show ?thesis using Cons.IH [OF a] True by auto
  next
    case False
    have "lt c a \<Longrightarrow> lt c u"
    proof (cases "a = NaN")
      case True
      then show "lt c a \<Longrightarrow> lt c u" using lt_not_NaN by blast
    next
      case F: False
      assume "lt c a"
      then show "lt c u" using lt_total' [OF F Cons.prems False] by blast
    qed
    then show ?thesis using Cons.IH [OF Cons.prems] False by auto
  qed
qed

lemma fold_min_Fin:
  "fold (\<lambda>x m. if lt x m then x else m) (map Fin us) (Fin u) = Fin (fold min us u)"
  by (induction us arbitrary: u) (simp_all add: min_def not_less le_less)

lemma fold_max_Fin:
  "fold (\<lambda>x m. if lt m x then x else m) (map Fin us) (Fin u) = Fin (fold max us u)"
  by (induction us arbitrary: u) (simp_all add: max_def not_less le_less)

lemma odefunc_float_finite:
  "odefunc_float cp t (map Fin U) kv
     = (case odefunc cp t U kv of Inl e \<Rightarrow> Raises e | Inr dudt \<Rightarrow> Returns dudt)"
proof (cases U)
  case Nil
  then show ?thesis by (simp add: odefunc_float_def odefunc_def py_min_def)
next
  case (Cons u us)
  have m: "map finite_part (map Fin U) = U" by (simp add: map_idI)
  have f: "list_all is_finite (map Fin U)" by (simp add: list_all_iff)
  show ?thesis
    unfolding odefunc_float_def odefunc_def m
    using f unfolding Cons
    by (simp add: py_min_def py_max_def fold_min_Fin fold_max_Fin split: option.splits)
qed

lemma odefunc_float_guard:
  assumes "Nx kv = int n" "2 \<le> n" "length U = 2 * n" "length (X kv) = n"
  shows "odefunc_float cp t U kv = Raises AssertionError
           \<longleftrightarrow> hd U \<noteq> NaN \<and> (\<exists>u\<in>set U. lt u (Fin (- 100)) \<or> lt (Fin 100) u)"
    and "odefunc_float cp t U kv \<noteq> Raises AssertionError
           \<Longrightarrow> odefunc_float cp t U kv = Returns_nonfinite
               \<or> (\<exists>dudt. odefunc_float cp t U kv = Returns dudt \<and> length dudt = length U)"
proof -
  obtain u us where U: "U = u # us" using assms(2,3) by (cases U) auto
  have l: "int (length U) = 2 * Nx kv" using assms(1,3) by simp
  have lm: "length (map finite_part U) = 2 * n" using assms(3) by simp
  note a = assemble_cf [OF assms(1,2) lm assms(4), of cp t]
  have g: "(lt (fold (\<lambda>x m. if lt x m then x else m) us u) (Fin (- 100))
        \<or> lt (Fin 100) (fold (\<lambda>x m. if lt m x then x else m) us u))
      \<longleftrightarrow> u \<noteq> NaN \<and> (\<exists>x\<in>set U. lt x (Fin (- 100)) \<or> lt (Fin 100) x)"
  proof (cases "u = NaN")
    case True
    then show ?thesis by (simp add: fold_min_NaN fold_max_NaN)
  next
    case False
    show ?thesis unfolding fold_min_lt [OF False] fold_max_lt [OF False] U using False by blast
  qed
  have o: "odefunc_float cp t U kv =
      (if u \<noteq> NaN \<and> (\<exists>x\<in>set U. lt x (Fin (- 100)) \<or> lt (Fin 100) x) then Raises AssertionError
       else if list_all is_finite U
         then Returns (map (dudt_A_cf cp kv t (take n (map finite_part U)) (drop n (map finite_part U))) [0..<n]
                 @ map (dudt_P_cf cp kv t (take n (map finite_part U)) (drop n (map finite_part U))) [0..<n])
         else Returns_nonfinite)"
    unfolding odefunc_float_def a using l g by (simp add: py_min_def py_max_def U)
  show "odefunc_float cp t U kv = Raises AssertionError
           \<longleftrightarrow> hd U \<noteq> NaN \<and> (\<exists>u\<in>set U. lt u (Fin (- 100)) \<or> lt (Fin 100) u)"
    unfolding o by (simp add: U)
  show "odefunc_float cp t U kv \<noteq> Raises AssertionError
           \<Longrightarrow> odefunc_float cp t U kv = Returns_nonfinite
               \<or> (\<exists>dudt. odefunc_float cp t U kv = Returns dudt \<and> length dudt = length U)"
    unfolding o using assms(3) by (simp split: if_splits)
qed

text \<open>The composite Simpson rule as a sum over pairs of intervals.\<close>

lemma basic_simpson_panels:
  "length ys = length xs \<Longrightarrow>
     basic_simpson ys xs
       = (\<Sum>k<(length xs - 1) div 2.
            simpson_panel (ys ! (2 * k)) (ys ! (2 * k + 1)) (ys ! (2 * k + 2))
                          (xs ! (2 * k)) (xs ! (2 * k + 1)) (xs ! (2 * k + 2)))"
proof (induction ys xs rule: basic_simpson.induct)
  case (1 y0 y1 y2 ys x0 x1 x2 xs)
  have ih: "basic_simpson (y2 # ys) (x2 # xs)
       = (\<Sum>k<(length (x2 # xs) - 1) div 2.
            simpson_panel ((y2 # ys) ! (2 * k)) ((y2 # ys) ! (2 * k + 1)) ((y2 # ys) ! (2 * k + 2))
                          ((x2 # xs) ! (2 * k)) ((x2 # xs) ! (2 * k + 1)) ((x2 # xs) ! (2 * k + 2)))"
    by (rule "1.IH") (use "1.prems" in simp)
  have e: "(length (x0 # x1 # x2 # xs) - 1) div 2 = Suc ((length (x2 # xs) - 1) div 2)"
    by simp
  show ?case
    unfolding basic_simpson.simps ih e sum.lessThan_Suc_shift by simp
qed simp_all

lemma simpson_panel_uniform:
  assumes "x1 - x0 = h" "x2 - x1 = h" "h \<noteq> 0"
  shows "simpson_panel y0 y1 y2 x0 x1 x2 = h / 3 * (y0 + 4 * y1 + y2)"
  using assms(3) unfolding simpson_panel_def Let_def assms(1,2)
  by (simp add: field_simps)

lemma simpson_last_uniform:
  assumes "x2 - x3 = h" "x1 - x2 = h" "h \<noteq> 0"
  shows "simpson_last y3 y2 y1 x3 x2 x1 = h / 12 * (5 * y1 + 8 * y2 - y3)"
  using assms(3) unfolding simpson_last_def Let_def assms(1,2)
  by (simp add: field_simps power2_eq_square power3_eq_cube)

lemma basic_simpson_uniform:
  assumes "length ys = length xs" "\<forall>i. i + 1 < length xs \<longrightarrow> xs ! (i + 1) - xs ! i = h" "h \<noteq> 0"
  shows "basic_simpson ys xs
       = h / 3 * (\<Sum>k<(length xs - 1) div 2. ys ! (2 * k) + 4 * ys ! (2 * k + 1) + ys ! (2 * k + 2))"
proof -
  have p: "simpson_panel (ys ! (2 * k)) (ys ! (2 * k + 1)) (ys ! (2 * k + 2))
                          (xs ! (2 * k)) (xs ! (2 * k + 1)) (xs ! (2 * k + 2))
      = h / 3 * (ys ! (2 * k) + 4 * ys ! (2 * k + 1) + ys ! (2 * k + 2))"
    if "k < (length xs - 1) div 2" for k
  proof -
    have "2 * k + 1 < length xs" "(2 * k + 1) + 1 < length xs" using that by arith+
    then have "xs ! (2 * k + 1) - xs ! (2 * k) = h" "xs ! (2 * k + 2) - xs ! (2 * k + 1) = h"
      using assms(2) [rule_format, of "2 * k"] assms(2) [rule_format, of "2 * k + 1"]
      by (simp_all add: add.assoc)
    then show ?thesis using assms(3) by (rule simpson_panel_uniform)
  qed
  have "basic_simpson ys xs
      = (\<Sum>k<(length xs - 1) div 2.
           h / 3 * (ys ! (2 * k) + 4 * ys ! (2 * k + 1) + ys ! (2 * k + 2)))"
    unfolding basic_simpson_panels [OF assms(1)]
    by (rule sum.cong [OF refl], rule p, simp)
  then show ?thesis by (simp only: sum_distrib_left)
qed

lemma simpson_uniform:
  assumes "length ys = length xs" "\<forall>i. i + 1 < length xs \<longrightarrow> xs ! (i + 1) - xs ! i = h" "h \<noteq> 0"
  shows "length xs = 2 * m + 1 \<Longrightarrow>
           simpson ys xs = h / 3 * (\<Sum>k<m. ys ! (2 * k) + 4 * ys ! (2 * k + 1) + ys ! (2 * k + 2))"
    and "length xs = 2 * m + 2 \<Longrightarrow> 1 \<le> m \<Longrightarrow>
           simpson ys xs = h / 3 * (\<Sum>k<m. ys ! (2 * k) + 4 * ys ! (2 * k + 1) + ys ! (2 * k + 2))
             + h / 12 * (5 * ys ! (2 * m + 1) + 8 * ys ! (2 * m) - ys ! (2 * m - 1))"
    and "length xs = 2 \<Longrightarrow> simpson ys xs = h / 2 * (ys ! 0 + ys ! 1)"
proof -
  note b = basic_simpson_uniform [OF assms]
  show "simpson ys xs = h / 3 * (\<Sum>k<m. ys ! (2 * k) + 4 * ys ! (2 * k + 1) + ys ! (2 * k + 2))"
    if l: "length xs = 2 * m + 1"
  proof -
    have "(length xs - 1) div 2 = m" "odd (length ys)" using l assms(1) by simp_all
    then show ?thesis using b by (simp add: simpson_def)
  qed
  show "simpson ys xs = h / 3 * (\<Sum>k<m. ys ! (2 * k) + 4 * ys ! (2 * k + 1) + ys ! (2 * k + 2))
             + h / 12 * (5 * ys ! (2 * m + 1) + 8 * ys ! (2 * m) - ys ! (2 * m - 1))"
    if l: "length xs = 2 * m + 2" and m: "1 \<le> m"
  proof -
    have n: "length ys = 2 * m + 2" using l assms(1) by simp
    have d: "(length xs - 1) div 2 = m" using l by simp
    have i: "length ys - 3 = 2 * m - 1" "length ys - 2 = 2 * m" "length ys - 1 = 2 * m + 1"
      using n m by arith+
    have "(2 * m - 1) + 1 < length xs" "2 * m + 1 < length xs" "(2 * m - 1) + 1 = 2 * m"
      using l m by arith+
    then have h1: "xs ! (2 * m) - xs ! (2 * m - 1) = h" "xs ! (2 * m + 1) - xs ! (2 * m) = h"
      using assms(2) [rule_format, of "2 * m - 1"] assms(2) [rule_format, of "2 * m"] by simp_all
    have "simpson ys xs = basic_simpson ys xs
        + simpson_last (ys ! (2 * m - 1)) (ys ! (2 * m)) (ys ! (2 * m + 1))
                       (xs ! (2 * m - 1)) (xs ! (2 * m)) (xs ! (2 * m + 1))"
      unfolding simpson_def Let_def i using n m by simp
    then show ?thesis
      unfolding b d simpson_last_uniform [OF h1 assms(3)] .
  qed
  show "simpson ys xs = h / 2 * (ys ! 0 + ys ! 1)" if l: "length xs = 2"
  proof -
    have "xs ! 1 - xs ! 0 = h" using assms(2) [rule_format, of 0] l by simp
    then show ?thesis using l assms(1) by (simp add: simpson_def)
  qed
qed

lemma simpson_panel_quadratic:
  assumes "x0 < x1" "x1 < x2"
  shows "simpson_panel (a * x0 ^ 2 + b * x0 + c) (a * x1 ^ 2 + b * x1 + c) (a * x2 ^ 2 + b * x2 + c)
           x0 x1 x2
         = a * (x2 ^ 3 - x0 ^ 3) / 3 + b * (x2 ^ 2 - x0 ^ 2) / 2 + c * (x2 - x0)"
proof -
  define h0 where "h0 = x1 - x0"
  define h1 where "h1 = x2 - x1"
  have h: "h0 > 0" "h1 > 0" using assms by (simp_all add: h0_def h1_def)
  then have nz: "h0 \<noteq> 0" "h1 \<noteq> 0" "h0 / h1 \<noteq> 0" "h0 * h1 \<noteq> 0" by simp_all
  have x: "x1 = x0 + h0" "x2 = x0 + h0 + h1" by (simp_all add: h0_def h1_def)
  have e: "x0 + h0 - x0 = h0" "x0 + h0 + h1 - (x0 + h0) = h1" by simp_all
  show ?thesis
    unfolding simpson_panel_def Let_def x e using nz
    by (simp add: field_simps power2_eq_square power3_eq_cube)
qed

section \<open>Properties of the driver\<close>

lemma run_model_kvals_eq:
  "run_model_kvals h d a =
     (let params = (h ! d) ++ (h ! a) in
      (case build_grid params of Inl e \<Rightarrow> (Inl e, h @ [params])
       | Inr (Xs, dx) \<Rightarrow>
          (let kv0 = params(''X'' \<mapsto> VArr Xs, ''deltax'' \<mapsto> VFloat dx) in
           (case t_eval_entry kv0 of Inl e \<Rightarrow> (Inl e, h @ [params, kv0])
            | Inr tv \<Rightarrow>
               (let kv1 = kv0(''t_eval'' \<mapsto> tv) in
                (case initial_condition_entry kv1 of Inl e \<Rightarrow> (Inl e, h @ [params, kv1])
                 | Inr ic \<Rightarrow> (Inr (Suc (length h)),
                               h @ [params, kv1(''initial_condition'' \<mapsto> ic)])))))))"
  by (simp add: run_model_kvals_def alloc_def setitem_def Let_def nth_append list_update_append
      split: sum.splits prod.splits)

lemma run_model_kvals_extends: "\<exists>ext. snd (run_model_kvals h d a) = h @ ext"
  unfolding run_model_kvals_eq by (simp add: Let_def split: sum.splits prod.splits)

lemma run_model_extends: "\<exists>ext. snd (run_model solve_ivp h d a) = h @ ext"
proof -
  obtain ext where e: "snd (run_model_kvals h d a) = h @ ext"
    using run_model_kvals_extends by blast
  have "snd (run_model solve_ivp h d a) = snd (run_model_kvals h d a)"
    by (simp add: run_model_def split: prod.splits sum.splits)
  then show ?thesis using e by simp
qed

lemma linspace_cf:
  assumes "2 \<le> n"
  shows "linspace a b n
      = Inr (map (\<lambda>i. a + real i * ((b - a) / real_of_int (n - 1))) [0..<nat n])"
proof -
  define st where "st = (b - a) / real_of_int (n - 1)"
  define y where "y = map (\<lambda>v. v + a) (map (\<lambda>v. v * st) (map real [0..<nat n]))"
  have n: "\<not> n < 0" "n - 1 > 0" "n > 1" using assms by simp_all
  have l: "linspace a b n = Inr (y[nat n - 1 := b])"
    unfolding linspace_def Let_def y_def st_def using n by (simp only: if_True if_False)
  have "y[nat n - 1 := b] = map (\<lambda>i. a + real i * st) [0..<nat n]"
  proof (rule nth_equalityI)
    show "length (y[nat n - 1 := b]) = length (map (\<lambda>i. a + real i * st) [0..<nat n])"
      by (simp add: y_def)
  next
    fix i assume "i < length (y[nat n - 1 := b])"
    then have i: "i < nat n" by (simp add: y_def)
    show "y[nat n - 1 := b] ! i = map (\<lambda>i. a + real i * st) [0..<nat n] ! i"
    proof (cases "i = nat n - 1")
      case True
      have "real (nat n - 1) = real_of_int (n - 1)" using assms by (simp add: of_nat_diff)
      moreover have "real_of_int (n - 1) \<noteq> 0" using assms by simp
      ultimately have "a + real (nat n - 1) * st = b" by (simp add: st_def)
      then show ?thesis using True i by (simp add: y_def)
    next
      case False
      then show ?thesis using i by (simp add: y_def)
    qed
  qed
  then show ?thesis using l by (simp add: st_def)
qed

lemma linspace_small:
  "n < 0 \<Longrightarrow> linspace a b n = Inl ValueError"
  "linspace a b 0 = Inr []"
  "linspace a b 1 = Inr [a]"
  by (simp_all add: linspace_def)

lemma build_grid_cf:
  assumes "get_float params ''x0'' = Inr a" "get_float params ''xL'' = Inr b"
    "get_index params ''Nx'' = Inr n" "2 \<le> n"
  shows "build_grid params
      = Inr (map (\<lambda>i. a + real i * ((b - a) / real_of_int (n - 1))) [0..<nat n],
             \<bar>(b - a) / real_of_int (n - 1)\<bar>)"
proof -
  define Xs where "Xs = map (\<lambda>i. a + real i * ((b - a) / real_of_int (n - 1))) [0..<nat n]"
  have l: "length Xs = nat n" by (simp add: Xs_def)
  have i1: "idx Xs 1 = Some (Xs ! 1)"
    by (rule idx_int [where k = 1]) (use l assms(4) in simp_all)
  have i0: "idx Xs 0 = Some (Xs ! 0)"
    by (rule idx_int [where k = 0]) (use l assms(4) in simp_all)
  have d: "Xs ! 1 - Xs ! 0 = (b - a) / real_of_int (n - 1)"
    using assms(4) by (simp add: Xs_def)
  have "build_grid params =
      (case linspace a b n of Inl e \<Rightarrow> Inl e | Inr Xs \<Rightarrow>
      (case idx Xs 1 of None \<Rightarrow> Inl IndexError | Some x1 \<Rightarrow>
      (case idx Xs 0 of None \<Rightarrow> Inl IndexError | Some x0 \<Rightarrow> Inr (Xs, \<bar>x1 - x0\<bar>))))"
    by (simp add: build_grid_def assms(1,2,3))
  also have "\<dots> = Inr (Xs, \<bar>Xs ! 1 - Xs ! 0\<bar>)"
    unfolding linspace_cf [OF assms(4)] Xs_def [symmetric] by (simp add: i1 i0)
  finally have "build_grid params = Inr (Xs, \<bar>(b - a) / real_of_int (n - 1)\<bar>)"
    unfolding d .
  then show ?thesis unfolding Xs_def .
qed

lemma build_grid_small:
  assumes "get_float params ''x0'' = Inr a" "get_float params ''xL'' = Inr b"
    "get_index params ''Nx'' = Inr n"
  shows "n < 0 \<Longrightarrow> build_grid params = Inl ValueError"
    and "0 \<le> n \<Longrightarrow> n \<le> 1 \<Longrightarrow> build_grid params = Inl IndexError"
proof -
  show "n < 0 \<Longrightarrow> build_grid params = Inl ValueError"
    unfolding build_grid_def assms by (simp add: linspace_small)
  assume "0 \<le> n" "n \<le> 1"
  then consider "n = 0" | "n = 1" by linarith
  then show "build_grid params = Inl IndexError"
    unfolding build_grid_def assms by cases (simp_all add: linspace_small idx_def)
qed

lemma ravel_F_default:
  "ravel_F (map (\<lambda>x_i. [0.5, 0.0]) [0 .. n - 1]) = replicate (nat n) 0.5 @ replicate (nat n) 0"
proof -
  define R where "R = replicate (nat n) [0.5, 0.0 :: real]"
  have m: "map (\<lambda>x_i. [0.5, 0.0 :: real]) [0 .. n - 1] = R"
    by (simp add: map_replicate_const R_def)
  have u: "[0..<length [0.5, 0.0 :: real]] = [0, 1]" by (simp add: upt_rec)
  have "ravel_F R = map (\<lambda>row. row ! 0) R @ map (\<lambda>row. row ! 1) R"
  proof (cases R)
    case Nil
    then show ?thesis by (simp add: ravel_F_def)
  next
    case (Cons r rs)
    then have "r = [0.5, 0.0]" unfolding R_def by (cases "nat n") simp_all
    then have "[0..<length r] = [0, 1]" using u by simp
    then show ?thesis unfolding Cons by (simp add: ravel_F_def)
  qed
  also have "\<dots> = replicate (nat n) 0.5 @ replicate (nat n) 0"
    unfolding R_def by simp
  finally show ?thesis unfolding m .
qed

lemma get_float_other:
  "k \<noteq> k' \<Longrightarrow> get_float (d(k' \<mapsto> v)) k = get_float d k"
  "k \<noteq> k' \<Longrightarrow> get_index (d(k' \<mapsto> v)) k = get_index d k"
  by (simp_all add: get_float_def get_index_def)

lemma entries_ignore_grid:
  "t_eval_entry (params(''X'' \<mapsto> x, ''deltax'' \<mapsto> y)) = t_eval_entry params"
  "get_index (params(''X'' \<mapsto> x, ''deltax'' \<mapsto> y, ''t_eval'' \<mapsto> z)) ''Nx'' = get_index params ''Nx''"
  "(params(''X'' \<mapsto> x, ''deltax'' \<mapsto> y, ''t_eval'' \<mapsto> z)) ''initial_condition'' = params ''initial_condition''"
proof -
  have g: "get_float (params(''X'' \<mapsto> x, ''deltax'' \<mapsto> y)) ''t0'' = get_float params ''t0''"
    "get_float (params(''X'' \<mapsto> x, ''deltax'' \<mapsto> y)) ''tL'' = get_float params ''tL''"
    "get_float (params(''X'' \<mapsto> x, ''deltax'' \<mapsto> y)) ''points_per_second''
       = get_float params ''points_per_second''"
    "(params(''X'' \<mapsto> x, ''deltax'' \<mapsto> y)) ''t_eval'' = params ''t_eval''"
    by (simp_all add: get_float_other)
  show "t_eval_entry (params(''X'' \<mapsto> x, ''deltax'' \<mapsto> y)) = t_eval_entry params"
    unfolding t_eval_entry_def g ..
  show "get_index (params(''X'' \<mapsto> x, ''deltax'' \<mapsto> y, ''t_eval'' \<mapsto> z)) ''Nx'' = get_index params ''Nx''"
    by (simp add: get_float_other)
  show "(params(''X'' \<mapsto> x, ''deltax'' \<mapsto> y, ''t_eval'' \<mapsto> z)) ''initial_condition'' = params ''initial_condition''"
    by simp
qed

text \<open>The driver on the small example: three nodes on \<open>[0, 2]\<close>, final time 1.\<close>

lemma run_small:
  "run_model_kvals [DEFAULT_PARAMETERS, args_small] 0 1
     = (Inr 3, snd (run_model_kvals [DEFAULT_PARAMETERS, args_small] 0 1))"
proof -
  have "fst (run_model_kvals [DEFAULT_PARAMETERS, args_small] 0 1) = Inr 3"
    by (simp add: run_model_kvals_def alloc_def build_grid_def get_float_def get_index_def
        as_float_def as_index_def DEFAULT_PARAMETERS_def args_small_def linspace_def Let_def
        idx_def t_eval_entry_def initial_condition_entry_def setitem_def py_int_def map_add_def
        upt_rec)
  then show ?thesis by (metis prod.collapse)
qed

lemma params_small:
  "get_float (([DEFAULT_PARAMETERS, args_small] ! 0) ++ ([DEFAULT_PARAMETERS, args_small] ! 1)) ''x0'' = Inr 0"
  "get_float (([DEFAULT_PARAMETERS, args_small] ! 0) ++ ([DEFAULT_PARAMETERS, args_small] ! 1)) ''xL'' = Inr 2"
  "get_index (([DEFAULT_PARAMETERS, args_small] ! 0) ++ ([DEFAULT_PARAMETERS, args_small] ! 1)) ''Nx'' = Inr 3"
  "(([DEFAULT_PARAMETERS, args_small] ! 0) ++ ([DEFAULT_PARAMETERS, args_small] ! 1)) ''initial_condition'' = None"
  by (simp_all add: get_float_def get_index_def as_float_def as_index_def DEFAULT_PARAMETERS_def
      args_small_def map_add_def)

section \<open>The claims\<close>

text \<open>
  Claim C1, which the program does not meet. The claim is that \<^verbatim>\<open>odefunc\<close> raises exactly
  when some component of the state vector is below \<open>-100\<close> or above \<open>100\<close>, so on every
  vector with a component \<open>150\<close> or \<open>-150\<close>. The check of line 77 compares the builtin
  \<^verbatim>\<open>min\<close> and \<^verbatim>\<open>max\<close> of the vector, and both keep a NaN in the first component, which
  no comparison replaces: on \<open>[NaN, 2, 4, 0, 150, 0]\<close> and on \<open>[NaN, 2, 4, 0, -150, 0]\<close>
  the check does not fire and the function returns. The same component \<open>150\<close> is caught
  when the NaN stands in the second place, and when there is no NaN. (Lemma
  \<open>odefunc_float_guard\<close> gives the general statement: the check fires exactly when the
  first component is not NaN and some component is below \<open>-100\<close> or above \<open>100\<close>.)
\<close>

theorem odefunc_leading_nan:
  "odefunc_float caps_ex 0 [NaN, Fin 2, Fin 4, Fin 0, Fin 150, Fin 0] kvals_ex = Returns_nonfinite
   \<and> odefunc_float caps_ex 0 [NaN, Fin 2, Fin 4, Fin 0, Fin (- 150), Fin 0] kvals_ex = Returns_nonfinite
   \<and> odefunc_float caps_ex 0 [Fin 2, NaN, Fin 4, Fin 0, Fin 150, Fin 0] kvals_ex = Raises AssertionError
   \<and> odefunc_float caps_ex 0 [Fin 1, Fin 2, Fin 4, Fin 0, Fin 150, Fin 0] kvals_ex = Raises AssertionError"
proof -
  have p: "Nx kvals_ex = int 3" "2 \<le> (3::nat)" "length (X kvals_ex) = 3"
    by (simp_all add: kvals_ex_def)
  have a: "assemble caps_ex 0 V kvals_ex \<noteq> None" if "length V = 2 * 3" for V
    using assemble_cf [OF p(1,2) that p(3), of caps_ex 0] by simp
  have l: "int (length [a, b, c, d, e, f :: pyfloat]) = 2 * Nx kvals_ex" for a b c d e f
    by (simp add: kvals_ex_def)
  have 1: "odefunc_float caps_ex 0 [NaN, Fin 2, Fin 4, Fin 0, Fin 150, Fin 0] kvals_ex = Returns_nonfinite"
    using a [of "map finite_part [NaN, Fin 2, Fin 4, Fin 0, Fin 150, Fin 0]"] l
    by (auto simp add: odefunc_float_def py_min_def py_max_def split: option.splits)
  have 2: "odefunc_float caps_ex 0 [NaN, Fin 2, Fin 4, Fin 0, Fin (- 150), Fin 0] kvals_ex = Returns_nonfinite"
    using a [of "map finite_part [NaN, Fin 2, Fin 4, Fin 0, Fin (- 150), Fin 0]"] l
    by (auto simp add: odefunc_float_def py_min_def py_max_def split: option.splits)
  have 3: "odefunc_float caps_ex 0 [Fin 2, NaN, Fin 4, Fin 0, Fin 150, Fin 0] kvals_ex = Raises AssertionError"
    using l by (simp add: odefunc_float_def py_min_def py_max_def)
  have 4: "odefunc_float caps_ex 0 [Fin 1, Fin 2, Fin 4, Fin 0, Fin 150, Fin 0] kvals_ex = Raises AssertionError"
    using l by (simp add: odefunc_float_def py_min_def py_max_def)
  show ?thesis using 1 2 3 4 by blast
qed

text \<open>
  Claim C2. For an array \<open>Y\<close> of length \<open>Nx \<ge> 3\<close> and spacing \<open>deltax > 0\<close>, the
  diffusion term is \<open>(Y[i+1] - 2 Y[i] + Y[i-1]) / deltax\<^sup>2\<close> at every interior node, and
  at the two boundaries the same formula with the ghost node replaced by its reflection:
  \<open>Y[1]\<close> for \<open>Y[-1]\<close> at node \<open>0\<close>, and \<open>Y[Nx-2]\<close> for \<open>Y[Nx]\<close> at node \<open>Nx - 1\<close>.
\<close>

theorem disc_diffusion_term_reflective:
  assumes "Nx kv = int (length Y)" "3 \<le> length Y" "0 < deltax kv"
  shows "(\<forall>i. 1 \<le> i \<and> i \<le> length Y - 2 \<longrightarrow>
            disc_diffusion_term kv Y (int i)
              = Some ((Y ! (i + 1) - 2 * Y ! i + Y ! (i - 1)) / deltax kv ^ 2))
       \<and> disc_diffusion_term kv Y 0 = Some ((Y ! 1 - 2 * Y ! 0 + Y ! 1) / deltax kv ^ 2)
       \<and> disc_diffusion_term kv Y (Nx kv - 1)
              = Some ((Y ! (length Y - 2) - 2 * Y ! (length Y - 1) + Y ! (length Y - 2)) / deltax kv ^ 2)"
proof -
  have cf: "k < length Y \<Longrightarrow> disc_diffusion_term kv Y (int k) = Some (diffusion_cf (deltax kv) Y k)" for k
    by (rule disc_diffusion_term_cf) (use assms in arith)+
  have 1: "\<forall>i. 1 \<le> i \<and> i \<le> length Y - 2 \<longrightarrow>
            disc_diffusion_term kv Y (int i)
              = Some ((Y ! (i + 1) - 2 * Y ! i + Y ! (i - 1)) / deltax kv ^ 2)"
  proof (intro allI impI)
    fix i assume i: "1 \<le> i \<and> i \<le> length Y - 2"
    then have "i < length Y" "i \<noteq> 0" "i \<noteq> length Y - 1" using assms(2) by arith+
    then show "disc_diffusion_term kv Y (int i)
              = Some ((Y ! (i + 1) - 2 * Y ! i + Y ! (i - 1)) / deltax kv ^ 2)"
      using cf [of i] by (simp add: diffusion_cf_def)
  qed
  have z: "0 < length Y" using assms(2) by arith
  have 2: "disc_diffusion_term kv Y 0 = Some ((Y ! 1 - 2 * Y ! 0 + Y ! 1) / deltax kv ^ 2)"
    using cf [OF z] unfolding diffusion_cf_def by (simp only: simp_thms if_True of_nat_0)
  have e: "Nx kv - 1 = int (length Y - 1)" "length Y - 1 - 1 = length Y - 2" "length Y - 1 \<noteq> 0" "length Y - 1 < length Y"
    using assms(1,2) by arith+
  have 3: "disc_diffusion_term kv Y (Nx kv - 1)
              = Some ((Y ! (length Y - 2) - 2 * Y ! (length Y - 1) + Y ! (length Y - 2)) / deltax kv ^ 2)"
    unfolding e(1) cf [OF e(4)] diffusion_cf_def using e(2,3) by (simp only: simp_thms if_True if_False)
  show ?thesis using 1 2 3 by blast
qed

theorem disc_diffusion_term_reflective_witness:
  "disc_diffusion_term kvals_ex [1, 2, 4] 1 = Some 1
   \<and> disc_diffusion_term kvals_ex [1, 2, 4] 0 = Some 2
   \<and> disc_diffusion_term kvals_ex [1, 2, 4] 2 = Some (- 4)"
proof -
  have p: "Nx kvals_ex = int (length [1, 2, 4 :: real])" "3 \<le> length [1, 2, 4 :: real]"
      "0 < deltax kvals_ex"
    by (simp_all add: kvals_ex_def)
  have d: "deltax kvals_ex = 1" "Nx kvals_ex - 1 = 2" by (simp_all add: kvals_ex_def)
  note t = disc_diffusion_term_reflective [OF p]
  have "disc_diffusion_term kvals_ex [1, 2, 4] (int 1) = Some 1"
    using t [THEN conjunct1, rule_format, of 1] by (simp add: d)
  moreover have "disc_diffusion_term kvals_ex [1, 2, 4] 0 = Some 2"
    using t [THEN conjunct2, THEN conjunct1] by (simp add: d)
  moreover have "disc_diffusion_term kvals_ex [1, 2, 4] 2 = Some (- 4)"
    using t [THEN conjunct2, THEN conjunct2] by (simp add: d)
  ultimately show ?thesis by simp
qed

text \<open>
  Claim C5. In an evaluation of the right-hand side on an in-range state vector, the
  reaction term at node \<open>i\<close> is
  \<open>R_A = k_onA * A_cyto_r - k_offA * A[i] - k_AP * P[i]^alpha * A[i]\<close> and
  \<open>R_P = k_onP * P_cyto_r - k_offP * P[i] - k_PA * A[i]^beta * P[i]\<close>, and it is the
  reaction part of the components \<open>i\<close> and \<open>Nx + i\<close> of the result, where
  \<open>A_cyto_r = A_cyto(kvals, A)\<close> and \<open>P_cyto_r = P_cyto(kvals, P)\<close> are computed from the
  whole blocks and are the same at every node.
\<close>

theorem odefunc_reaction_terms:
  assumes "Nx kv = int n" "2 \<le> n" "length U = 2 * n" "length (X kv) = n"
    and "\<forall>u\<in>set U. - 100 \<le> u \<and> u \<le> 100"
  shows "let A = take n U; P = drop n U;
             A_cyto_r = A_cyto cp kv A; P_cyto_r = P_cyto cp kv P
         in \<exists>dudt. odefunc cp t U kv = Inr dudt \<and>
              (\<forall>i<n. R_A kv A P A_cyto_r t (int i)
                        = Some (k_onA kv * A_cyto_r - k_offA kv * A ! i
                                - k_AP kv * P ! i ^ alpha kv * A ! i)
                    \<and> R_P kv A P P_cyto_r t (int i)
                        = Some (k_onP kv * P_cyto_r - k_offP kv * P ! i
                                - k_PA kv * A ! i ^ beta kv * P ! i)
                    \<and> dudt ! i = D_A kv * diffusion_cf (deltax kv) A i - advection_cf cp kv t A i
                        + (k_onA kv * A_cyto_r - k_offA kv * A ! i
                           - k_AP kv * P ! i ^ alpha kv * A ! i)
                    \<and> dudt ! (n + i) = D_P kv * diffusion_cf (deltax kv) P i - advection_cf cp kv t P i
                        + (k_onP kv * P_cyto_r - k_offP kv * P ! i
                           - k_PA kv * A ! i ^ beta kv * P ! i))"
proof -
  define A where "A = take n U"
  define P where "P = drop n U"
  have l: "length A = n" "length P = n" using assms(3) by (simp_all add: A_def P_def)
  have nr: "\<not> (\<exists>u\<in>set U. u < - 100 \<or> 100 < u)" using assms(5) by force
  have o: "odefunc cp t U kv = Inr (map (dudt_A_cf cp kv t A P) [0..<n] @ map (dudt_P_cf cp kv t A P) [0..<n])"
    unfolding odefunc_cf [OF assms(1-4)] A_def P_def using nr by simp
  have "\<forall>i<n. R_A kv A P (A_cyto cp kv A) t (int i)
                        = Some (k_onA kv * A_cyto cp kv A - k_offA kv * A ! i
                                - k_AP kv * P ! i ^ alpha kv * A ! i)
                    \<and> R_P kv A P (P_cyto cp kv P) t (int i)
                        = Some (k_onP kv * P_cyto cp kv P - k_offP kv * P ! i
                                - k_PA kv * A ! i ^ beta kv * P ! i)
                    \<and> (map (dudt_A_cf cp kv t A P) [0..<n] @ map (dudt_P_cf cp kv t A P) [0..<n]) ! i
                        = D_A kv * diffusion_cf (deltax kv) A i - advection_cf cp kv t A i
                        + (k_onA kv * A_cyto cp kv A - k_offA kv * A ! i
                           - k_AP kv * P ! i ^ alpha kv * A ! i)
                    \<and> (map (dudt_A_cf cp kv t A P) [0..<n] @ map (dudt_P_cf cp kv t A P) [0..<n]) ! (n + i)
                        = D_P kv * diffusion_cf (deltax kv) P i - advection_cf cp kv t P i
                        + (k_onP kv * P_cyto cp kv P - k_offP kv * P ! i
                           - k_PA kv * A ! i ^ beta kv * P ! i)"
  proof (intro allI impI conjI)
    fix i assume i: "i < n"
    show "R_A kv A P (A_cyto cp kv A) t (int i)
            = Some (k_onA kv * A_cyto cp kv A - k_offA kv * A ! i - k_AP kv * P ! i ^ alpha kv * A ! i)"
      using R_A_cf [of i A P kv "A_cyto cp kv A" t] i l by (simp add: reaction_A_cf_def)
    show "R_P kv A P (P_cyto cp kv P) t (int i)
            = Some (k_onP kv * P_cyto cp kv P - k_offP kv * P ! i - k_PA kv * A ! i ^ beta kv * P ! i)"
      using R_P_cf [of i A P kv "P_cyto cp kv P" t] i l by (simp add: reaction_P_cf_def)
    show "(map (dudt_A_cf cp kv t A P) [0..<n] @ map (dudt_P_cf cp kv t A P) [0..<n]) ! i
            = D_A kv * diffusion_cf (deltax kv) A i - advection_cf cp kv t A i
              + (k_onA kv * A_cyto cp kv A - k_offA kv * A ! i - k_AP kv * P ! i ^ alpha kv * A ! i)"
      using i by (simp add: nth_append dudt_A_cf_def reaction_A_cf_def)
    show "(map (dudt_A_cf cp kv t A P) [0..<n] @ map (dudt_P_cf cp kv t A P) [0..<n]) ! (n + i)
            = D_P kv * diffusion_cf (deltax kv) P i - advection_cf cp kv t P i
              + (k_onP kv * P_cyto cp kv P - k_offP kv * P ! i - k_PA kv * A ! i ^ beta kv * P ! i)"
      using i by (simp add: nth_append dudt_P_cf_def reaction_P_cf_def)
  qed
  then show ?thesis unfolding Let_def A_def [symmetric] P_def [symmetric] using o by blast
qed

theorem odefunc_reaction_terms_witness:
  "\<exists>dudt. odefunc caps_ex 0 [1, 2, 4, 0, 1, - 1] kvals_ex = Inr dudt
     \<and> A_cyto caps_ex kvals_ex [1, 2, 4] = 23 / 24
     \<and> R_A kvals_ex [1, 2, 4] [0, 1, - 1] (23 / 24) 0 1 = Some (- 937 / 192)"
proof -
  have p: "Nx kvals_ex = int 3" "2 \<le> (3::nat)" "length [1, 2, 4, 0, 1, - 1 :: real] = 2 * 3"
      "length (X kvals_ex) = 3" "\<forall>u\<in>set [1, 2, 4, 0, 1, - 1 :: real]. - 100 \<le> u \<and> u \<le> 100"
    by (simp_all add: kvals_ex_def)
  have c: "A_cyto caps_ex kvals_ex [1, 2, 4] = 23 / 24"
    by (simp add: caps_ex_def kvals_ex_def default_A_cyto_def Ybar_def simpson_def
        simpson_panel_def Let_def)
  have v: "k_onA kvals_ex = 1 / 8" "k_offA kvals_ex = 1 / 2" "k_AP kvals_ex = 2" "alpha kvals_ex = 1"
    by (simp_all add: kvals_ex_def)
  obtain dudt where o: "odefunc caps_ex 0 [1, 2, 4, 0, 1, - 1] kvals_ex = Inr dudt"
    and r: "\<forall>i<3. R_A kvals_ex [1, 2, 4] [0, 1, - 1] (A_cyto caps_ex kvals_ex [1, 2, 4]) 0 (int i)
        = Some (k_onA kvals_ex * A_cyto caps_ex kvals_ex [1, 2, 4] - k_offA kvals_ex * [1, 2, 4] ! i
                - k_AP kvals_ex * [0, 1, - 1] ! i ^ alpha kvals_ex * [1, 2, 4] ! i)"
    using odefunc_reaction_terms [OF p, of caps_ex 0] by (auto simp add: Let_def)
  have "R_A kvals_ex [1, 2, 4] [0, 1, - 1] (23 / 24) 0 1 = Some (- 937 / 192)"
    using r [rule_format, of 1] by (simp add: c v)
  then show ?thesis using o c by blast
qed

text \<open>
  Claim C3, which does not hold as stated. The claim gives the advective contribution at
  node \<open>i \<le> Nx - 2\<close> as the forward difference \<open>(f(i+1) - f(i)) / h\<close> of the flux and
  at node \<open>Nx - 1\<close> as \<open>-[(-v(X[Nx-2],t) Y[Nx-2]) - v(X[Nx-1],t) Y[Nx-1]] / h\<close>. In the
  program the forward difference is subtracted at every node, the right boundary included,
  so the two formulas of the claim enter the right-hand side with opposite signs. With
  no diffusion and no reaction, velocity 1, spacing 1 and \<open>A = [1, 2, 4]\<close> the result at
  node 0 is \<open>-1\<close>, the negative of the claimed contribution 1, and at node 2 it is \<open>6\<close>,
  the claimed contribution itself.
\<close>

theorem advective_contribution_counterexample:
  "odefunc caps_ex 0 [1, 2, 4, 0, 0, 0] kvals_adv = Inr [- 1, - 2, 6, 0, 0, 0]
   \<and> spec_advective_contribution caps_ex kvals_adv 0 [1, 2, 4] 0 = 1
   \<and> spec_advective_contribution caps_ex kvals_adv 0 [1, 2, 4] 2 = 6"
proof -
  have p: "Nx kvals_adv = int 3" "2 \<le> (3::nat)" "length [1, 2, 4, 0, 0, 0 :: real] = 2 * 3"
      "length (X kvals_adv) = 3"
    by (simp_all add: kvals_adv_def kvals_ex_def)
  have u: "[0..<3] = [0, 1, 2]" by (simp add: upt_rec)
  have "odefunc caps_ex 0 [1, 2, 4, 0, 0, 0] kvals_adv = Inr [- 1, - 2, 6, 0, 0, 0]"
    unfolding odefunc_cf [OF p] u
    by (simp add: dudt_A_cf_def dudt_P_cf_def advection_cf_def reaction_A_cf_def reaction_P_cf_def
        kvals_adv_def kvals_ex_def caps_ex_def)
  moreover have "spec_advective_contribution caps_ex kvals_adv 0 [1, 2, 4] 0 = 1"
    "spec_advective_contribution caps_ex kvals_adv 0 [1, 2, 4] 2 = 6"
    by (simp_all add: spec_advective_contribution_def kvals_adv_def kvals_ex_def caps_ex_def)
  ultimately show ?thesis by blast
qed

text \<open>
  Claim C3 as amended. In an evaluation of the right-hand side on an in-range state
  vector, the component at node \<open>i\<close> is diffusion minus advection plus reaction for both
  species, where the advection term is the forward difference \<open>(f(i+1) - f(i)) / h\<close> of the
  flux \<open>f(i) = v(X[i], t) Y[i]\<close> for \<open>i \<le> Nx - 2\<close>, computed by
  \<^verbatim>\<open>disc_spatial_derivative\<close>, and at \<open>i = Nx - 1\<close> it is
  \<open>[(-v(X[Nx-2],t) Y[Nx-2]) - v(X[Nx-1],t) Y[Nx-1]] / h\<close>: the same forward difference with
  the flux at node \<open>Nx\<close> replaced by the negated flux at node \<open>Nx - 2\<close>.
\<close>

theorem odefunc_advection_terms:
  assumes "Nx kv = int n" "2 \<le> n" "length U = 2 * n" "length (X kv) = n"
    and "\<forall>u\<in>set U. - 100 \<le> u \<and> u \<le> 100"
  shows "let A = take n U; P = drop n U; h = deltax kv; Xs = X kv;
             v = (\<lambda>x. v_func cp kv x t)
         in \<exists>dudt. odefunc cp t U kv = Inr dudt \<and>
              (\<forall>i<n. dudt ! i = D_A kv * diffusion_cf h A i
                        - (if i = n - 1
                           then ((- v (Xs ! (n - 2)) * A ! (n - 2)) - v (Xs ! (n - 1)) * A ! (n - 1)) / h
                           else (v (Xs ! (i + 1)) * A ! (i + 1) - v (Xs ! i) * A ! i) / h)
                        + reaction_A_cf kv A P (A_cyto cp kv A) i
                    \<and> dudt ! (n + i) = D_P kv * diffusion_cf h P i
                        - (if i = n - 1
                           then ((- v (Xs ! (n - 2)) * P ! (n - 2)) - v (Xs ! (n - 1)) * P ! (n - 1)) / h
                           else (v (Xs ! (i + 1)) * P ! (i + 1) - v (Xs ! i) * P ! i) / h)
                        + reaction_P_cf kv A P (P_cyto cp kv P) i)
              \<and> (\<forall>i<n - 1.
                    disc_spatial_derivative kv (flux cp kv t A) (int i)
                      = Some ((v (Xs ! (i + 1)) * A ! (i + 1) - v (Xs ! i) * A ! i) / h)
                  \<and> disc_spatial_derivative kv (flux cp kv t P) (int i)
                      = Some ((v (Xs ! (i + 1)) * P ! (i + 1) - v (Xs ! i) * P ! i) / h))"
proof -
  define A where "A = take n U"
  define P where "P = drop n U"
  have l: "length A = n" "length P = n" using assms(3) by (simp_all add: A_def P_def)
  have m: "n - 1 - 1 = n - 2" by simp
  have nr: "\<not> (\<exists>u\<in>set U. u < - 100 \<or> 100 < u)" using assms(5) by force
  have o: "odefunc cp t U kv = Inr (map (dudt_A_cf cp kv t A P) [0..<n] @ map (dudt_P_cf cp kv t A P) [0..<n])"
    unfolding odefunc_cf [OF assms(1-4)] A_def P_def using nr by simp
  have a: "i < n \<Longrightarrow> advection_cf cp kv t Y i
      = (if i = n - 1
         then ((- v_func cp kv (X kv ! (n - 2)) t * Y ! (n - 2)) - v_func cp kv (X kv ! (n - 1)) t * Y ! (n - 1)) / deltax kv
         else (v_func cp kv (X kv ! (i + 1)) t * Y ! (i + 1) - v_func cp kv (X kv ! i) t * Y ! i) / deltax kv)"
    if "length Y = n" for Y i
    using that m by (simp add: advection_cf_def)
  have d: "disc_spatial_derivative kv (flux cp kv t Y) (int i)
      = Some ((v_func cp kv (X kv ! (i + 1)) t * Y ! (i + 1) - v_func cp kv (X kv ! i) t * Y ! i) / deltax kv)"
    if "length Y = n" "i < n - 1" for Y i
  proof -
    have "flux cp kv t Y (int i + 1) = Some (v_func cp kv (X kv ! (i + 1)) t * Y ! (i + 1))"
      by (rule flux_cf) (use that assms(4) in arith)+
    moreover have "flux cp kv t Y (int i) = Some (v_func cp kv (X kv ! i) t * Y ! i)"
      by (rule flux_cf) (use that assms(4) in arith)+
    ultimately show ?thesis by (simp add: disc_spatial_derivative_def)
  qed
  have 1: "\<forall>i<n. (map (dudt_A_cf cp kv t A P) [0..<n] @ map (dudt_P_cf cp kv t A P) [0..<n]) ! i
        = D_A kv * diffusion_cf (deltax kv) A i
            - (if i = n - 1
               then ((- v_func cp kv (X kv ! (n - 2)) t * A ! (n - 2)) - v_func cp kv (X kv ! (n - 1)) t * A ! (n - 1)) / deltax kv
               else (v_func cp kv (X kv ! (i + 1)) t * A ! (i + 1) - v_func cp kv (X kv ! i) t * A ! i) / deltax kv)
            + reaction_A_cf kv A P (A_cyto cp kv A) i
      \<and> (map (dudt_A_cf cp kv t A P) [0..<n] @ map (dudt_P_cf cp kv t A P) [0..<n]) ! (n + i)
        = D_P kv * diffusion_cf (deltax kv) P i
            - (if i = n - 1
               then ((- v_func cp kv (X kv ! (n - 2)) t * P ! (n - 2)) - v_func cp kv (X kv ! (n - 1)) t * P ! (n - 1)) / deltax kv
               else (v_func cp kv (X kv ! (i + 1)) t * P ! (i + 1) - v_func cp kv (X kv ! i) t * P ! i) / deltax kv)
            + reaction_P_cf kv A P (P_cyto cp kv P) i"
  proof (intro allI impI)
    fix i assume i: "i < n"
    have "(map (dudt_A_cf cp kv t A P) [0..<n] @ map (dudt_P_cf cp kv t A P) [0..<n]) ! i
        = dudt_A_cf cp kv t A P i"
      "(map (dudt_A_cf cp kv t A P) [0..<n] @ map (dudt_P_cf cp kv t A P) [0..<n]) ! (n + i)
        = dudt_P_cf cp kv t A P i"
      using i by (simp_all add: nth_append)
    then show "(map (dudt_A_cf cp kv t A P) [0..<n] @ map (dudt_P_cf cp kv t A P) [0..<n]) ! i
        = D_A kv * diffusion_cf (deltax kv) A i
            - (if i = n - 1
               then ((- v_func cp kv (X kv ! (n - 2)) t * A ! (n - 2)) - v_func cp kv (X kv ! (n - 1)) t * A ! (n - 1)) / deltax kv
               else (v_func cp kv (X kv ! (i + 1)) t * A ! (i + 1) - v_func cp kv (X kv ! i) t * A ! i) / deltax kv)
            + reaction_A_cf kv A P (A_cyto cp kv A) i
      \<and> (map (dudt_A_cf cp kv t A P) [0..<n] @ map (dudt_P_cf cp kv t A P) [0..<n]) ! (n + i)
        = D_P kv * diffusion_cf (deltax kv) P i
            - (if i = n - 1
               then ((- v_func cp kv (X kv ! (n - 2)) t * P ! (n - 2)) - v_func cp kv (X kv ! (n - 1)) t * P ! (n - 1)) / deltax kv
               else (v_func cp kv (X kv ! (i + 1)) t * P ! (i + 1) - v_func cp kv (X kv ! i) t * P ! i) / deltax kv)
            + reaction_P_cf kv A P (P_cyto cp kv P) i"
      unfolding dudt_A_cf_def dudt_P_cf_def a [OF l(1) i] a [OF l(2) i] by simp
  qed
  have 2: "\<forall>i<n - 1.
        disc_spatial_derivative kv (flux cp kv t A) (int i)
          = Some ((v_func cp kv (X kv ! (i + 1)) t * A ! (i + 1) - v_func cp kv (X kv ! i) t * A ! i) / deltax kv)
      \<and> disc_spatial_derivative kv (flux cp kv t P) (int i)
          = Some ((v_func cp kv (X kv ! (i + 1)) t * P ! (i + 1) - v_func cp kv (X kv ! i) t * P ! i) / deltax kv)"
    using d [OF l(1)] d [OF l(2)] by blast
  show ?thesis unfolding Let_def A_def [symmetric] P_def [symmetric] using o 1 2 by blast
qed

theorem odefunc_advection_terms_witness:
  "\<exists>dudt. odefunc caps_ex 0 [1, 2, 4, 0, 0, 0] kvals_adv = Inr dudt
     \<and> dudt ! 0 = - 1 \<and> dudt ! 2 = 6
     \<and> disc_spatial_derivative kvals_adv (flux caps_ex kvals_adv 0 [1, 2, 4]) 0 = Some 1"
proof -
  have p: "Nx kvals_adv = int 3" "2 \<le> (3::nat)" "length [1, 2, 4, 0, 0, 0 :: real] = 2 * 3"
      "length (X kvals_adv) = 3" "\<forall>u\<in>set [1, 2, 4, 0, 0, 0 :: real]. - 100 \<le> u \<and> u \<le> 100"
    by (simp_all add: kvals_adv_def kvals_ex_def)
  have v: "D_A kvals_adv = 0" "deltax kvals_adv = 1" "X kvals_adv = [0, 1, 2]"
    "v_func caps_ex = (\<lambda>kv x t. 1)" "reaction_A_cf kvals_adv A P r i = 0" for A P r i
    by (simp_all add: kvals_adv_def kvals_ex_def caps_ex_def reaction_A_cf_def)
  note t = odefunc_advection_terms [OF p, of caps_ex 0, unfolded Let_def]
  obtain dudt where o: "odefunc caps_ex 0 [1, 2, 4, 0, 0, 0] kvals_adv = Inr dudt"
    and a: "\<forall>i<3. dudt ! i = D_A kvals_adv * diffusion_cf (deltax kvals_adv) (take 3 [1, 2, 4, 0, 0, 0]) i
          - (if i = 3 - 1
             then ((- v_func caps_ex kvals_adv (X kvals_adv ! (3 - 2)) 0 * take 3 [1, 2, 4, 0, 0, 0] ! (3 - 2))
                   - v_func caps_ex kvals_adv (X kvals_adv ! (3 - 1)) 0 * take 3 [1, 2, 4, 0, 0, 0] ! (3 - 1)) / deltax kvals_adv
             else (v_func caps_ex kvals_adv (X kvals_adv ! (i + 1)) 0 * take 3 [1, 2, 4, 0, 0, 0] ! (i + 1)
                   - v_func caps_ex kvals_adv (X kvals_adv ! i) 0 * take 3 [1, 2, 4, 0, 0, 0] ! i) / deltax kvals_adv)
          + reaction_A_cf kvals_adv (take 3 [1, 2, 4, 0, 0, 0]) (drop 3 [1, 2, 4, 0, 0, 0])
              (A_cyto caps_ex kvals_adv (take 3 [1, 2, 4, 0, 0, 0])) i"
    and d: "\<forall>i<3 - 1. disc_spatial_derivative kvals_adv (flux caps_ex kvals_adv 0 (take 3 [1, 2, 4, 0, 0, 0])) (int i)
          = Some ((v_func caps_ex kvals_adv (X kvals_adv ! (i + 1)) 0 * take 3 [1, 2, 4, 0, 0, 0] ! (i + 1)
                   - v_func caps_ex kvals_adv (X kvals_adv ! i) 0 * take 3 [1, 2, 4, 0, 0, 0] ! i) / deltax kvals_adv)"
    using t by blast
  have "dudt ! 0 = - 1" using a [rule_format, of 0] by (simp add: v)
  moreover have "dudt ! 2 = 6" using a [rule_format, of 2] by (simp add: v)
  moreover have "disc_spatial_derivative kvals_adv (flux caps_ex kvals_adv 0 [1, 2, 4]) 0 = Some 1"
    using d [rule_format, of 0] by (simp add: v)
  ultimately show ?thesis using o by blast
qed

text \<open>
  Claim C4, which does not hold as stated. With all six rate constants zero and a zero
  velocity field, the components of the right-hand side need not sum to zero: on three
  nodes with spacing 1, \<open>D_A = 1\<close> and \<open>A = [0, 1, 1]\<close>, \<open>P = [0, 0, 0]\<close> the result is
  \<open>[2, -1, 0, 0, 0, 0]\<close>, whose sum is 1. The reflected stencil counts each boundary
  difference twice, so the plain sum \<open>sum(A) + sum(P)\<close> is not conserved.
\<close>

theorem plain_mass_counterexample:
  "k_onA kvals_diff = 0 \<and> k_onP kvals_diff = 0 \<and> k_offA kvals_diff = 0 \<and> k_offP kvals_diff = 0
   \<and> k_AP kvals_diff = 0 \<and> k_PA kvals_diff = 0 \<and> v_func caps_still = (\<lambda>kv x t. 0)
   \<and> odefunc caps_still 0 [0, 1, 1, 0, 0, 0] kvals_diff = Inr [2, - 1, 0, 0, 0, 0]
   \<and> sum_list [2, - 1, 0, 0, 0, 0 :: real] \<noteq> 0"
proof -
  have p: "Nx kvals_diff = int 3" "2 \<le> (3::nat)" "length [0, 1, 1, 0, 0, 0 :: real] = 2 * 3"
      "length (X kvals_diff) = 3"
    by (simp_all add: kvals_diff_def kvals_ex_def)
  have u: "[0..<3] = [0, 1, 2]" by (simp add: upt_rec)
  have "odefunc caps_still 0 [0, 1, 1, 0, 0, 0] kvals_diff = Inr [2, - 1, 0, 0, 0, 0]"
    unfolding odefunc_cf [OF p] u
    by (simp add: dudt_A_cf_def dudt_P_cf_def advection_cf_def reaction_A_cf_def reaction_P_cf_def
        diffusion_cf_def kvals_diff_def kvals_ex_def caps_still_def)
  then show ?thesis by (simp add: kvals_diff_def kvals_ex_def caps_still_def)
qed

text \<open>
  Claim C4 as amended. With all six rate constants zero and a zero velocity field, for
  every in-range state vector the right-hand side conserves the mass with trapezoid
  weights (the two boundary nodes of each block weighted by one half): the weighted
  components sum to zero. The plain sum of the components is
  \<open>D_A ((A[1] - A[0]) - (A[Nx-1] - A[Nx-2])) / h\<^sup>2 + D_P ((P[1] - P[0]) - (P[Nx-1] - P[Nx-2])) / h\<^sup>2\<close>.
\<close>

theorem diffusion_mass_balance:
  assumes "Nx kv = int n" "2 \<le> n" "length U = 2 * n" "length (X kv) = n"
    and "\<forall>u\<in>set U. - 100 \<le> u \<and> u \<le> 100"
    and "k_onA kv = 0" "k_onP kv = 0" "k_offA kv = 0" "k_offP kv = 0" "k_AP kv = 0" "k_PA kv = 0"
    and "\<forall>x. v_func cp kv x t = 0"
  shows "let A = take n U; P = drop n U; h = deltax kv
         in \<exists>dudt. odefunc cp t U kv = Inr dudt
              \<and> trapezoid_mass (take n dudt) + trapezoid_mass (drop n dudt) = 0
              \<and> sum_list dudt
                  = D_A kv * (((A ! 1 - A ! 0) - (A ! (n - 1) - A ! (n - 2))) / h ^ 2)
                    + D_P kv * (((P ! 1 - P ! 0) - (P ! (n - 1) - P ! (n - 2))) / h ^ 2)"
proof -
  define A where "A = take n U"
  define P where "P = drop n U"
  define dA where "dA = map (\<lambda>i. D_A kv * diffusion_cf (deltax kv) A i) [0..<n]"
  define dP where "dP = map (\<lambda>i. D_P kv * diffusion_cf (deltax kv) P i) [0..<n]"
  have l: "length A = n" "length P = n" using assms(3) by (simp_all add: A_def P_def)
  have ld: "length dA = n" "length dP = n" by (simp_all add: dA_def dP_def)
  have nr: "\<not> (\<exists>u\<in>set U. u < - 100 \<or> 100 < u)" using assms(5) by force
  have fA: "dudt_A_cf cp kv t A P = (\<lambda>i. D_A kv * diffusion_cf (deltax kv) A i)"
    using assms(6-12) by (simp add: dudt_A_cf_def advection_cf_def reaction_A_cf_def fun_eq_iff)
  have fP: "dudt_P_cf cp kv t A P = (\<lambda>i. D_P kv * diffusion_cf (deltax kv) P i)"
    using assms(6-12) by (simp add: dudt_P_cf_def advection_cf_def reaction_P_cf_def fun_eq_iff)
  have o: "odefunc cp t U kv = Inr (dA @ dP)"
    unfolding odefunc_cf [OF assms(1-4)] A_def [symmetric] P_def [symmetric] fA fP dA_def dP_def
    using nr by simp
  have tk: "take n (dA @ dP) = dA" "drop n (dA @ dP) = dP" using ld by simp_all
  have tz: "trapezoid_mass dA = 0" "trapezoid_mass dP = 0"
    unfolding dA_def dP_def using trapezoid_diffusion_cf [OF l(1) assms(2)]
      trapezoid_diffusion_cf [OF l(2) assms(2)] by simp_all
  have sA: "sum_list dA = D_A kv * (((A ! 1 - A ! 0) - (A ! (n - 1) - A ! (n - 2))) / deltax kv ^ 2)"
    unfolding dA_def using sum_diffusion_cf [OF l(1) assms(2), of "deltax kv"]
    by (simp add: sum_list_const_mult)
  have sP: "sum_list dP = D_P kv * (((P ! 1 - P ! 0) - (P ! (n - 1) - P ! (n - 2))) / deltax kv ^ 2)"
    unfolding dP_def using sum_diffusion_cf [OF l(2) assms(2), of "deltax kv"]
    by (simp add: sum_list_const_mult)
  have "trapezoid_mass (take n (dA @ dP)) + trapezoid_mass (drop n (dA @ dP)) = 0"
    unfolding tk tz by simp
  moreover have "sum_list (dA @ dP)
      = D_A kv * (((A ! 1 - A ! 0) - (A ! (n - 1) - A ! (n - 2))) / deltax kv ^ 2)
        + D_P kv * (((P ! 1 - P ! 0) - (P ! (n - 1) - P ! (n - 2))) / deltax kv ^ 2)"
    using sA sP by simp
  ultimately show ?thesis
    unfolding Let_def A_def [symmetric] P_def [symmetric] using o by blast
qed

theorem diffusion_mass_balance_witness:
  "\<exists>dudt. odefunc caps_still 0 [0, 1, 1, 0, 0, 0] kvals_diff = Inr dudt
     \<and> trapezoid_mass (take 3 dudt) + trapezoid_mass (drop 3 dudt) = 0
     \<and> sum_list dudt = 1"
proof -
  have p: "Nx kvals_diff = int 3" "2 \<le> (3::nat)" "length [0, 1, 1, 0, 0, 0 :: real] = 2 * 3"
      "length (X kvals_diff) = 3" "\<forall>u\<in>set [0, 1, 1, 0, 0, 0 :: real]. - 100 \<le> u \<and> u \<le> 100"
      "k_onA kvals_diff = 0" "k_onP kvals_diff = 0" "k_offA kvals_diff = 0" "k_offP kvals_diff = 0"
      "k_AP kvals_diff = 0" "k_PA kvals_diff = 0"
      "\<forall>x. v_func caps_still kvals_diff x 0 = 0"
    by (simp_all add: kvals_diff_def kvals_ex_def caps_still_def)
  have v: "D_A kvals_diff = 1" "D_P kvals_diff = 1" "deltax kvals_diff = 1"
    by (simp_all add: kvals_diff_def kvals_ex_def)
  show ?thesis
    using diffusion_mass_balance [OF p, unfolded Let_def] by (simp add: v)
qed

text \<open>
  Claim C6. \<^verbatim>\<open>Ybar(kvals, Y)\<close> is twice the composite Simpson integral of \<open>Y\<close> over the
  grid nodes \<open>X\<close>, divided by \<open>L\<close>. For an odd number of nodes the integral is the sum,
  over the consecutive pairs of intervals, of the three-point rule on unequal intervals,
  which integrates every quadratic exactly. On an equally spaced grid with spacing \<open>h\<close>
  it is \<open>h/3\<close> times the sum of \<open>Y[2k] + 4 Y[2k+1] + Y[2k+2]\<close> over the pairs, that is the
  weights 1, 4, 2, 4, ..., 4, 1; for an even number of nodes the last interval is added
  as \<open>h/12 (5 Y[-1] + 8 Y[-2] - Y[-3])\<close>, and two nodes give the trapezoid rule. On an
  increasing grid the quadrature is exact on a constant array \<open>c\<close>, so \<^verbatim>\<open>Ybar\<close> is
  \<open>2 c (X[-1] - X[0]) / L\<close> there, which is \<open>2 c\<close> when the grid spans the length \<open>L\<close>.
  The default capabilities are \<open>A_cyto = rho_A - psi * Ybar(A)\<close> and
  \<open>P_cyto = rho_P - psi * Ybar(P)\<close>.
\<close>

theorem Ybar_quadrature:
  "(length Y = length (X kv) \<and> length (X kv) = 2 * m + 1 \<longrightarrow>
      Ybar kv Y
        = 2 * (\<Sum>k<m. simpson_panel (Y ! (2 * k)) (Y ! (2 * k + 1)) (Y ! (2 * k + 2))
                   (X kv ! (2 * k)) (X kv ! (2 * k + 1)) (X kv ! (2 * k + 2))) / L kv)
   \<and> (x0 < x1 \<and> x1 < x2 \<longrightarrow>
        simpson_panel (a * x0 ^ 2 + b * x0 + d) (a * x1 ^ 2 + b * x1 + d) (a * x2 ^ 2 + b * x2 + d)
          x0 x1 x2
        = a * (x2 ^ 3 - x0 ^ 3) / 3 + b * (x2 ^ 2 - x0 ^ 2) / 2 + d * (x2 - x0))
   \<and> (length Y = length (X kv) \<and> h \<noteq> 0
        \<and> (\<forall>i. i + 1 < length (X kv) \<longrightarrow> X kv ! (i + 1) - X kv ! i = h) \<longrightarrow>
        (length (X kv) = 2 * m + 1 \<longrightarrow>
           Ybar kv Y
             = 2 * (h / 3 * (\<Sum>k<m. Y ! (2 * k) + 4 * Y ! (2 * k + 1) + Y ! (2 * k + 2))) / L kv)
        \<and> (length (X kv) = 2 * m + 2 \<and> 1 \<le> m \<longrightarrow>
           Ybar kv Y
             = 2 * (h / 3 * (\<Sum>k<m. Y ! (2 * k) + 4 * Y ! (2 * k + 1) + Y ! (2 * k + 2))
                    + h / 12 * (5 * Y ! (2 * m + 1) + 8 * Y ! (2 * m) - Y ! (2 * m - 1))) / L kv)
        \<and> (length (X kv) = 2 \<longrightarrow> Ybar kv Y = 2 * (h / 2 * (Y ! 0 + Y ! 1)) / L kv))
   \<and> (2 \<le> length (X kv) \<and> sorted_wrt (<) (X kv) \<longrightarrow>
        Ybar kv (replicate (length (X kv)) c) = 2 * (c * (last (X kv) - hd (X kv))) / L kv)
   \<and> (2 \<le> length (X kv) \<and> sorted_wrt (<) (X kv) \<and> last (X kv) - hd (X kv) = L kv \<longrightarrow>
        Ybar kv (replicate (length (X kv)) c) = 2 * c)
   \<and> default_A_cyto kv A = rho_A kv - psi kv * Ybar kv A
   \<and> default_P_cyto kv P = rho_P kv - psi kv * Ybar kv P
   \<and> A_cyto default_caps = default_A_cyto \<and> P_cyto default_caps = default_P_cyto"
proof -
  have p: "Ybar kv Y
        = 2 * (\<Sum>k<m. simpson_panel (Y ! (2 * k)) (Y ! (2 * k + 1)) (Y ! (2 * k + 2))
                   (X kv ! (2 * k)) (X kv ! (2 * k + 1)) (X kv ! (2 * k + 2))) / L kv"
    if "length Y = length (X kv)" "length (X kv) = 2 * m + 1"
  proof -
    have "(length (X kv) - 1) div 2 = m" "odd (length Y)" using that by simp_all
    then show ?thesis
      using basic_simpson_panels [OF that(1)] by (simp add: Ybar_def simpson_def)
  qed
  have q: "x0 < x1 \<and> x1 < x2 \<longrightarrow>
        simpson_panel (a * x0 ^ 2 + b * x0 + d) (a * x1 ^ 2 + b * x1 + d) (a * x2 ^ 2 + b * x2 + d)
          x0 x1 x2
        = a * (x2 ^ 3 - x0 ^ 3) / 3 + b * (x2 ^ 2 - x0 ^ 2) / 2 + d * (x2 - x0)"
    using simpson_panel_quadratic by blast
  have u: "(length (X kv) = 2 * m + 1 \<longrightarrow>
           Ybar kv Y
             = 2 * (h / 3 * (\<Sum>k<m. Y ! (2 * k) + 4 * Y ! (2 * k + 1) + Y ! (2 * k + 2))) / L kv)
        \<and> (length (X kv) = 2 * m + 2 \<and> 1 \<le> m \<longrightarrow>
           Ybar kv Y
             = 2 * (h / 3 * (\<Sum>k<m. Y ! (2 * k) + 4 * Y ! (2 * k + 1) + Y ! (2 * k + 2))
                    + h / 12 * (5 * Y ! (2 * m + 1) + 8 * Y ! (2 * m) - Y ! (2 * m - 1))) / L kv)
        \<and> (length (X kv) = 2 \<longrightarrow> Ybar kv Y = 2 * (h / 2 * (Y ! 0 + Y ! 1)) / L kv)"
    if "length Y = length (X kv)" "h \<noteq> 0"
      "\<forall>i. i + 1 < length (X kv) \<longrightarrow> X kv ! (i + 1) - X kv ! i = h"
  proof (intro conjI impI)
    assume l: "length (X kv) = 2 * m + 1"
    show "Ybar kv Y
        = 2 * (h / 3 * (\<Sum>k<m. Y ! (2 * k) + 4 * Y ! (2 * k + 1) + Y ! (2 * k + 2))) / L kv"
      unfolding Ybar_def simpson_uniform(1) [OF that(1,3,2) l] ..
  next
    assume l: "length (X kv) = 2 * m + 2 \<and> 1 \<le> m"
    show "Ybar kv Y
        = 2 * (h / 3 * (\<Sum>k<m. Y ! (2 * k) + 4 * Y ! (2 * k + 1) + Y ! (2 * k + 2))
               + h / 12 * (5 * Y ! (2 * m + 1) + 8 * Y ! (2 * m) - Y ! (2 * m - 1))) / L kv"
      unfolding Ybar_def simpson_uniform(2) [OF that(1,3,2) l [THEN conjunct1] l [THEN conjunct2]] ..
  next
    assume l: "length (X kv) = 2"
    show "Ybar kv Y = 2 * (h / 2 * (Y ! 0 + Y ! 1)) / L kv"
      unfolding Ybar_def simpson_uniform(3) [OF that(1,3,2) l] ..
  qed
  have 1: "Ybar kv (replicate (length (X kv)) c) = 2 * (c * (last (X kv) - hd (X kv))) / L kv"
    if "2 \<le> length (X kv)" "sorted_wrt (<) (X kv)"
    unfolding Ybar_def using simpson_const [OF refl that, of c] by simp
  have 2: "Ybar kv (replicate (length (X kv)) c) = 2 * c"
    if "2 \<le> length (X kv)" "sorted_wrt (<) (X kv)" "last (X kv) - hd (X kv) = L kv"
  proof -
    have "X kv \<noteq> []" using that(1) by auto
    then have "hd (X kv) = X kv ! 0" "last (X kv) = X kv ! (length (X kv) - 1)"
      by (simp_all add: hd_conv_nth last_conv_nth)
    moreover have "X kv ! 0 < X kv ! (length (X kv) - 1)"
      using that(1,2) by (auto simp add: sorted_wrt_iff_nth_less)
    ultimately have "L kv \<noteq> 0" using that(3) by simp
    then show ?thesis using 1 [OF that(1,2)] that(3) by simp
  qed
  have 3: "default_A_cyto kv A = rho_A kv - psi kv * Ybar kv A"
    "default_P_cyto kv P = rho_P kv - psi kv * Ybar kv P"
    "A_cyto default_caps = default_A_cyto" "P_cyto default_caps = default_P_cyto"
    by (simp_all add: default_A_cyto_def default_P_cyto_def default_caps_def)
  show ?thesis using p q u 1 2 3 by blast
qed

theorem Ybar_quadrature_witness:
  "Ybar kvals_grid5 [1, 2, 4, 8, 16] = 65 / 12
   \<and> Ybar kvals_grid4 [1, 2, 4, 8] = 61 / 18
   \<and> simpson_panel 1 4 16 1 2 4 = 21
   \<and> Ybar (kvals_ex\<lparr>L := 2\<rparr>) [5, 5, 5] = 10 \<and> Ybar kvals_ex [5, 5, 5] = 5
   \<and> default_A_cyto kvals_grid5 [1, 2, 4, 8, 16] = 3 / 2 - 1 / 4 * (65 / 12)"
proof -
  have g5: "length [1, 2, 4, 8, 16 :: real] = length (X kvals_grid5)" "(1::real) \<noteq> 0"
    "\<forall>i. i + 1 < length (X kvals_grid5) \<longrightarrow> X kvals_grid5 ! (i + 1) - X kvals_grid5 ! i = 1"
    "length (X kvals_grid5) = 2 * 2 + 1" "L kvals_grid5 = 8"
    "rho_A kvals_grid5 = 3 / 2" "psi kvals_grid5 = 1 / 4"
    by (auto simp add: kvals_grid5_def kvals_ex_def less_Suc_eq eval_nat_numeral)
  have g4: "length [1, 2, 4, 8 :: real] = length (X kvals_grid4)"
    "\<forall>i. i + 1 < length (X kvals_grid4) \<longrightarrow> X kvals_grid4 ! (i + 1) - X kvals_grid4 ! i = 1"
    "length (X kvals_grid4) = 2 * 1 + 2" "(1::nat) \<le> 1" "L kvals_grid4 = 6"
    by (auto simp add: kvals_grid4_def kvals_ex_def less_Suc_eq eval_nat_numeral)
  have s2: "(\<Sum>k<(2::nat). f k) = f 0 + f 1" for f :: "nat \<Rightarrow> real"
    by (simp add: eval_nat_numeral)
  have a: "Ybar kvals_grid5 [1, 2, 4, 8, 16] = 65 / 12"
    using Ybar_quadrature [of "[1, 2, 4, 8, 16]" kvals_grid5 2 x0 x1 x2 a b d 1 c A P,
        THEN conjunct2, THEN conjunct2, THEN conjunct1] g5(1,2,3,4)
    by (simp add: g5(5) s2)
  have b: "Ybar kvals_grid4 [1, 2, 4, 8] = 61 / 18"
    using Ybar_quadrature [of "[1, 2, 4, 8]" kvals_grid4 1 x0 x1 x2 a b d 1 c A P,
        THEN conjunct2, THEN conjunct2, THEN conjunct1] g4(1,2,3,4) g5(2)
    by (simp add: g4(5))
  have q: "simpson_panel 1 4 16 1 2 4 = 21"
    using Ybar_quadrature [of Y kv m 1 2 4 1 0 0 h c A P, THEN conjunct2, THEN conjunct1]
    by simp
  have p: "2 \<le> length (X (kvals_ex\<lparr>L := 2\<rparr>))" "sorted_wrt (<) (X (kvals_ex\<lparr>L := 2\<rparr>))"
      "last (X (kvals_ex\<lparr>L := 2\<rparr>)) - hd (X (kvals_ex\<lparr>L := 2\<rparr>)) = L (kvals_ex\<lparr>L := 2\<rparr>)"
      "2 \<le> length (X kvals_ex)" "sorted_wrt (<) (X kvals_ex)"
    by (simp_all add: kvals_ex_def)
  have r: "replicate (length (X (kvals_ex\<lparr>L := 2\<rparr>))) 5 = [5, 5, 5 :: real]"
      "replicate (length (X kvals_ex)) 5 = [5, 5, 5 :: real]"
      "last (X kvals_ex) - hd (X kvals_ex) = 2" "L kvals_ex = 4"
    by (simp_all add: kvals_ex_def eval_nat_numeral)
  have c1: "Ybar (kvals_ex\<lparr>L := 2\<rparr>) [5, 5, 5] = 10"
    using Ybar_quadrature [of Y "kvals_ex\<lparr>L := 2\<rparr>" m x0 x1 x2 a b d h 5 A P,
        THEN conjunct2, THEN conjunct2, THEN conjunct2, THEN conjunct2, THEN conjunct1]
      p(1,2,3) unfolding r by simp
  have c2: "Ybar kvals_ex [5, 5, 5] = 5"
    using Ybar_quadrature [of Y kvals_ex m x0 x1 x2 a b d h 5 A P,
        THEN conjunct2, THEN conjunct2, THEN conjunct2, THEN conjunct1]
      p(4,5) unfolding r by simp
  have d: "default_A_cyto kvals_grid5 [1, 2, 4, 8, 16] = 3 / 2 - 1 / 4 * (65 / 12)"
    using Ybar_quadrature [of Y kvals_grid5 m x0 x1 x2 a b d h c "[1, 2, 4, 8, 16]" P,
        THEN conjunct2, THEN conjunct2, THEN conjunct2, THEN conjunct2, THEN conjunct2, THEN conjunct1]
    by (simp add: a g5(6,7))
  show ?thesis using a b q c1 c2 d by blast
qed

text \<open>
  Claim C7. For merged parameters with \<open>Nx \<ge> 3\<close> and \<open>xL > x0\<close>, the driver builds a
  grid of exactly \<open>Nx\<close> points that is strictly increasing and equally spaced, starts at
  \<open>x0\<close> and ends at \<open>xL\<close>; the spacing it derives is \<open>|X[1] - X[0]|\<close>, which is
  \<open>(xL - x0) / (Nx - 1)\<close>. These are the entries \<^verbatim>\<open>X\<close> and \<^verbatim>\<open>deltax\<close> of the resolved
  configuration.
\<close>

theorem grid_builder:
  assumes "get_float params ''x0'' = Inr a" "get_float params ''xL'' = Inr b"
    "get_index params ''Nx'' = Inr n" "3 \<le> n" "a < b"
  shows "\<exists>Xs dx. build_grid params = Inr (Xs, dx)
           \<and> length Xs = nat n \<and> sorted_wrt (<) Xs \<and> hd Xs = a \<and> last Xs = b
           \<and> (\<forall>i. i + 1 < nat n \<longrightarrow> Xs ! (i + 1) - Xs ! i = (b - a) / real_of_int (n - 1))
           \<and> dx = \<bar>Xs ! 1 - Xs ! 0\<bar> \<and> dx = (b - a) / real_of_int (n - 1)
           \<and> (\<forall>h d args k h'. (h ! d) ++ (h ! args) = params
                  \<longrightarrow> run_model_kvals h d args = (Inr k, h')
                  \<longrightarrow> (h' ! k) ''X'' = Some (VArr Xs) \<and> (h' ! k) ''deltax'' = Some (VFloat dx))"
proof -
  define st where "st = (b - a) / real_of_int (n - 1)"
  define Xs where "Xs = map (\<lambda>i. a + real i * st) [0..<nat n]"
  have n2: "2 \<le> n" using assms(4) by simp
  have st: "0 < st" using assms(4,5) by (simp add: st_def)
  have g: "build_grid params = Inr (Xs, \<bar>st\<bar>)"
    unfolding Xs_def st_def by (rule build_grid_cf [OF assms(1,2,3) n2])
  have l: "length Xs = nat n" by (simp add: Xs_def)
  have nth: "Xs ! i = a + real i * st" if "i < nat n" for i using that by (simp add: Xs_def)
  have ne: "Xs \<noteq> []" using l assms(4) by auto
  have s: "sorted_wrt (<) Xs"
    unfolding sorted_wrt_iff_nth_less using st l nth by simp
  have h: "hd Xs = a" using ne nth [of 0] assms(4) by (simp add: hd_conv_nth)
  have "real (nat n - 1) = real_of_int (n - 1)" using assms(4) by (simp add: of_nat_diff)
  moreover have "real_of_int (n - 1) \<noteq> 0" using assms(4) by simp
  ultimately have "a + real (nat n - 1) * st = b" by (simp add: st_def)
  then have la: "last Xs = b" using ne l nth [of "nat n - 1"] assms(4) by (simp add: last_conv_nth)
  have df: "\<forall>i. i + 1 < nat n \<longrightarrow> Xs ! (i + 1) - Xs ! i = st"
  proof (intro allI impI)
    fix i assume i: "i + 1 < nat n"
    then have "Xs ! (i + 1) = a + real (i + 1) * st" "Xs ! i = a + real i * st"
      using nth by simp_all
    then show "Xs ! (i + 1) - Xs ! i = st" by (simp add: algebra_simps)
  qed
  have d1: "\<bar>st\<bar> = \<bar>Xs ! 1 - Xs ! 0\<bar>" using df [rule_format, of 0] assms(4) by simp
  have d2: "\<bar>st\<bar> = st" using st by simp
  have drv: "(h' ! k) ''X'' = Some (VArr Xs) \<and> (h' ! k) ''deltax'' = Some (VFloat \<bar>st\<bar>)"
    if "(h ! d) ++ (h ! args) = params" "run_model_kvals h d args = (Inr k, h')" for h d args k h'
    using that(2) unfolding run_model_kvals_eq that(1) Let_def g
    by (auto simp add: nth_append split: sum.splits)
  show ?thesis
    using g l s h la df d1 d2 drv unfolding st_def [symmetric] by blast
qed

theorem grid_builder_witness:
  "\<exists>Xs dx. build_grid (DEFAULT_PARAMETERS ++ args_small) = Inr (Xs, dx)
     \<and> length Xs = 3 \<and> sorted_wrt (<) Xs \<and> hd Xs = 0 \<and> last Xs = 2 \<and> dx = 1
     \<and> (snd (run_model_kvals [DEFAULT_PARAMETERS, args_small] 0 1) ! 3) ''X'' = Some (VArr Xs)"
proof -
  have p: "(3::int) \<le> 3" "(0::real) < 2" by simp_all
  obtain Xs dx where g: "build_grid (([DEFAULT_PARAMETERS, args_small] ! 0) ++ ([DEFAULT_PARAMETERS, args_small] ! 1)) = Inr (Xs, dx)"
    and r: "length Xs = nat 3" "sorted_wrt (<) Xs" "hd Xs = 0" "last Xs = 2"
       "dx = (2 - 0) / real_of_int (3 - 1)"
    and d: "\<forall>h d args k h'. (h ! d) ++ (h ! args) = ([DEFAULT_PARAMETERS, args_small] ! 0) ++ ([DEFAULT_PARAMETERS, args_small] ! 1)
                  \<longrightarrow> run_model_kvals h d args = (Inr k, h')
                  \<longrightarrow> (h' ! k) ''X'' = Some (VArr Xs) \<and> (h' ! k) ''deltax'' = Some (VFloat dx)"
    using grid_builder [OF params_small(1,2,3) p] by blast
  have "(snd (run_model_kvals [DEFAULT_PARAMETERS, args_small] 0 1) ! 3) ''X'' = Some (VArr Xs)"
    using d [rule_format, OF refl run_small] by simp
  then show ?thesis using g r by (intro exI [of _ Xs] exI [of _ dx]) simp
qed

text \<open>
  Claim C8. When the merged parameters hold no \<^verbatim>\<open>initial_condition\<close>, the driver's
  initial condition is the flat vector whose first \<open>Nx\<close> components are \<open>0.5\<close> (the A
  block) and whose last \<open>Nx\<close> components are \<open>0.0\<close> (the P block).
\<close>

theorem default_initial_condition:
  assumes "params ''initial_condition'' = None" "get_index params ''Nx'' = Inr n"
  shows "initial_condition_entry params
           = Inr (VArr (replicate (nat n) 0.5 @ replicate (nat n) 0.0))
       \<and> (\<forall>h d args k h'. (h ! d) ++ (h ! args) = params
              \<longrightarrow> run_model_kvals h d args = (Inr k, h')
              \<longrightarrow> (h' ! k) ''initial_condition''
                    = Some (VArr (replicate (nat n) 0.5 @ replicate (nat n) 0.0)))"
proof -
  have e: "initial_condition_entry kv = Inr (VArr (replicate (nat n) 0.5 @ replicate (nat n) 0.0))"
    if "kv ''initial_condition'' = None" "get_index kv ''Nx'' = Inr n" for kv
    using that ravel_F_default [of n] by (simp add: initial_condition_entry_def)
  have drv: "(h' ! k) ''initial_condition''
                    = Some (VArr (replicate (nat n) 0.5 @ replicate (nat n) 0.0))"
    if "(h ! d) ++ (h ! args) = params" "run_model_kvals h d args = (Inr k, h')" for h d args k h'
  proof -
    have "initial_condition_entry (params(''X'' \<mapsto> x, ''deltax'' \<mapsto> y, ''t_eval'' \<mapsto> z))
        = Inr (VArr (replicate (nat n) 0.5 @ replicate (nat n) 0.0))" for x y z
      by (rule e) (simp_all only: entries_ignore_grid assms)
    then show ?thesis
      using that(2) unfolding run_model_kvals_eq that(1) Let_def
      by (auto simp add: nth_append split: sum.splits prod.splits)
  qed
  show ?thesis using e [OF assms] drv by blast
qed

theorem default_initial_condition_witness:
  "initial_condition_entry (DEFAULT_PARAMETERS ++ args_small) = Inr (VArr [0.5, 0.5, 0.5, 0, 0, 0])
   \<and> (snd (run_model_kvals [DEFAULT_PARAMETERS, args_small] 0 1) ! 3) ''initial_condition''
        = Some (VArr [0.5, 0.5, 0.5, 0, 0, 0])"
proof -
  note t = default_initial_condition [OF params_small(4,3)]
  have "initial_condition_entry (DEFAULT_PARAMETERS ++ args_small) = Inr (VArr [0.5, 0.5, 0.5, 0, 0, 0])"
    using t [THEN conjunct1] by (simp add: eval_nat_numeral)
  moreover have "(snd (run_model_kvals [DEFAULT_PARAMETERS, args_small] 0 1) ! 3) ''initial_condition''
        = Some (VArr [0.5, 0.5, 0.5, 0, 0, 0])"
    using t [THEN conjunct2, rule_format, OF refl run_small] by (simp add: eval_nat_numeral)
  ultimately show ?thesis by blast
qed

text \<open>
  Claim C9, which does not hold as stated. The driver has no check of its configuration
  and no configuration error: with \<open>Nx = 2\<close>, \<open>xL = x0 = 0\<close>, \<open>tL = t0 = 0\<close> and a
  string in the place of the velocity field, all four of them invalid, it builds the grid
  \<open>[0, 0]\<close> with spacing 0 and calls the integrator, whose result it returns.
\<close>

theorem no_configuration_check_counterexample:
  "get_index (DEFAULT_PARAMETERS ++ args_invalid) ''Nx'' = Inr 2
   \<and> get_float (DEFAULT_PARAMETERS ++ args_invalid) ''x0'' = Inr 0
   \<and> get_float (DEFAULT_PARAMETERS ++ args_invalid) ''xL'' = Inr 0
   \<and> get_float (DEFAULT_PARAMETERS ++ args_invalid) ''t0'' = Inr 0
   \<and> get_float (DEFAULT_PARAMETERS ++ args_invalid) ''tL'' = Inr 0
   \<and> (DEFAULT_PARAMETERS ++ args_invalid) ''v_func'' = Some (VStr ''no function'')
   \<and> fst (run_model (\<lambda>kv. Inr ''integrated'') [DEFAULT_PARAMETERS, args_invalid] 0 1)
        = Inr (''integrated'', 3)"
  by (simp add: run_model_def run_model_kvals_def alloc_def build_grid_def get_float_def
      get_index_def as_float_def as_index_def DEFAULT_PARAMETERS_def args_invalid_def
      linspace_def Let_def idx_def t_eval_entry_def initial_condition_entry_def setitem_def
      py_int_def map_add_def upt_rec)

text \<open>
  Claim C9 as amended. For merged parameters whose bounds are numbers and whose node count
  is an integer, the driver fails before the integrator is called only where the grid or
  the default output times cannot be built: with \<^verbatim>\<open>ValueError\<close> for \<open>Nx < 0\<close>, with
  \<^verbatim>\<open>IndexError\<close> for \<open>Nx = 0\<close> and \<open>Nx = 1\<close>, and for \<open>Nx \<ge> 2\<close> with the error of the
  output times, which is a \<^verbatim>\<open>ValueError\<close> when no \<^verbatim>\<open>t_eval\<close> is given and
  \<open>int(points_per_second * |tL - t0|)\<close> is negative. In every other case with \<open>Nx \<ge> 2\<close>,
  whatever \<open>x0\<close>, \<open>xL\<close>, \<open>t0\<close> and \<open>tL\<close> are, it calls the integrator on the resolved
  configuration and returns its result or its error.
\<close>

theorem run_model_failures:
  assumes "(h ! d) ++ (h ! args) = params"
    and "get_float params ''x0'' = Inr a" "get_float params ''xL'' = Inr b"
    and "get_index params ''Nx'' = Inr n"
  shows "(n < 0 \<longrightarrow> fst (run_model solve_ivp h d args) = Inl ValueError)
       \<and> (0 \<le> n \<and> n \<le> 1 \<longrightarrow> fst (run_model solve_ivp h d args) = Inl IndexError)
       \<and> (2 \<le> n \<longrightarrow>
            (case t_eval_entry params of
               Inl e \<Rightarrow> fst (run_model solve_ivp h d args) = Inl e
             | Inr tv \<Rightarrow>
                 (\<exists>kv. snd (run_model solve_ivp h d args) ! Suc (length h) = kv
                    \<and> kv ''t_eval'' = Some tv \<and> kv ''Nx'' = params ''Nx''
                    \<and> fst (run_model solve_ivp h d args)
                        = (case solve_ivp kv of Inl e \<Rightarrow> Inl e
                           | Inr sol \<Rightarrow> Inr (sol, Suc (length h))))))
       \<and> (\<forall>tv. params ''t_eval'' = Some tv \<longrightarrow> t_eval_entry params = Inr tv)
       \<and> (\<forall>t0v tLv pps. params ''t_eval'' = None \<and> get_float params ''t0'' = Inr t0v
              \<and> get_float params ''tL'' = Inr tLv
              \<and> get_float params ''points_per_second'' = Inr pps \<longrightarrow>
            (if py_int (pps * \<bar>tLv - t0v\<bar>) < 0 then t_eval_entry params = Inl ValueError
             else (\<exists>ts. t_eval_entry params = Inr (VArr ts))))"
proof -
  have 1: "fst (run_model solve_ivp h d args) = Inl ValueError" if "n < 0"
    using build_grid_small(1) [OF assms(2,3,4) that]
    by (simp add: run_model_def run_model_kvals_eq assms(1))
  have 2: "fst (run_model solve_ivp h d args) = Inl IndexError" if "0 \<le> n \<and> n \<le> 1"
    using build_grid_small(2) [OF assms(2,3,4)] that
    by (simp add: run_model_def run_model_kvals_eq assms(1))
  have 3: "(case t_eval_entry params of
               Inl e \<Rightarrow> fst (run_model solve_ivp h d args) = Inl e
             | Inr tv \<Rightarrow>
                 (\<exists>kv. snd (run_model solve_ivp h d args) ! Suc (length h) = kv
                    \<and> kv ''t_eval'' = Some tv \<and> kv ''Nx'' = params ''Nx''
                    \<and> fst (run_model solve_ivp h d args)
                        = (case solve_ivp kv of Inl e \<Rightarrow> Inl e
                           | Inr sol \<Rightarrow> Inr (sol, Suc (length h)))))" if n2: "2 \<le> n"
  proof -
    obtain Xs dx where g: "build_grid params = Inr (Xs, dx)"
      using build_grid_cf [OF assms(2,3,4) n2] by blast
    show ?thesis
    proof (cases "t_eval_entry params")
      case (Inl e)
      then show ?thesis
        by (simp add: run_model_def run_model_kvals_eq assms(1) g entries_ignore_grid)
    next
      case (Inr tv)
      define kv1 where "kv1 = params(''X'' \<mapsto> VArr Xs, ''deltax'' \<mapsto> VFloat dx, ''t_eval'' \<mapsto> tv)"
      have "get_index kv1 ''Nx'' = Inr n"
        unfolding kv1_def entries_ignore_grid by (rule assms(4))
      then obtain ic where ic: "initial_condition_entry kv1 = Inr ic"
        by (cases "kv1 ''initial_condition''") (simp_all add: initial_condition_entry_def)
      have r: "run_model_kvals h d args
          = (Inr (Suc (length h)), h @ [params, kv1(''initial_condition'' \<mapsto> ic)])"
        using ic unfolding kv1_def
        by (simp add: run_model_kvals_eq assms(1) g entries_ignore_grid Inr)
      have k: "(kv1(''initial_condition'' \<mapsto> ic)) ''t_eval'' = Some tv"
        "(kv1(''initial_condition'' \<mapsto> ic)) ''Nx'' = params ''Nx''"
        by (simp_all add: kv1_def)
      show ?thesis unfolding Inr using k
        by (simp add: run_model_def r nth_append split: sum.splits)
    qed
  qed
  have 4: "\<forall>tv. params ''t_eval'' = Some tv \<longrightarrow> t_eval_entry params = Inr tv"
    by (simp add: t_eval_entry_def)
  have 5: "\<forall>t0v tLv pps. params ''t_eval'' = None \<and> get_float params ''t0'' = Inr t0v
              \<and> get_float params ''tL'' = Inr tLv
              \<and> get_float params ''points_per_second'' = Inr pps \<longrightarrow>
            (if py_int (pps * \<bar>tLv - t0v\<bar>) < 0 then t_eval_entry params = Inl ValueError
             else (\<exists>ts. t_eval_entry params = Inr (VArr ts)))"
    by (simp add: t_eval_entry_def linspace_def Let_def)
  show ?thesis using 1 2 3 4 5 by blast
qed

theorem run_model_failures_witness:
  "fst (run_model (\<lambda>kv. Inr ''integrated'') [DEFAULT_PARAMETERS, map_of [(''Nx'', VInt (- 1))]] 0 1)
     = Inl ValueError
   \<and> fst (run_model (\<lambda>kv. Inr ''integrated'') [DEFAULT_PARAMETERS, map_of [(''Nx'', VInt 1)]] 0 1)
     = Inl IndexError
   \<and> fst (run_model (\<lambda>kv. Inr ''integrated'') [DEFAULT_PARAMETERS, args_invalid] 0 1)
     = Inr (''integrated'', 3)
   \<and> fst (run_model (\<lambda>kv. Inr ''integrated'')
        [DEFAULT_PARAMETERS, args_negative_rate] 0 1)
     = Inl ValueError"
proof -
  have m: "([DEFAULT_PARAMETERS, m] ! 0) ++ ([DEFAULT_PARAMETERS, m] ! 1) = DEFAULT_PARAMETERS ++ m" for m
    by simp
  have g: "get_float (DEFAULT_PARAMETERS ++ m) ''x0'' = Inr 0"
    "get_float (DEFAULT_PARAMETERS ++ m) ''xL'' = Inr 67.3"
    if "m ''x0'' = None" "m ''xL'' = None" for m
    using that by (simp_all add: get_float_def as_float_def DEFAULT_PARAMETERS_def map_add_def)
  have gi: "get_float (DEFAULT_PARAMETERS ++ args_invalid) ''x0'' = Inr 0"
    "get_float (DEFAULT_PARAMETERS ++ args_invalid) ''xL'' = Inr 0"
    "get_index (DEFAULT_PARAMETERS ++ args_invalid) ''Nx'' = Inr 2"
    "t_eval_entry (DEFAULT_PARAMETERS ++ args_invalid) = Inr (VArr [])"
    by (simp_all add: get_float_def get_index_def as_float_def as_index_def DEFAULT_PARAMETERS_def
        args_invalid_def map_add_def t_eval_entry_def linspace_def py_int_def)
  have n: "get_index (DEFAULT_PARAMETERS ++ map_of [(''Nx'', VInt k)]) ''Nx'' = Inr k" for k
    by (simp add: get_index_def as_index_def map_add_def)
  have np: "get_index (DEFAULT_PARAMETERS ++ args_negative_rate) ''Nx'' = Inr 2"
    "t_eval_entry (DEFAULT_PARAMETERS ++ args_negative_rate) = Inl ValueError"
    "args_negative_rate ''x0'' = None" "args_negative_rate ''xL'' = None"
    by (simp_all add: get_float_def get_index_def as_float_def as_index_def DEFAULT_PARAMETERS_def
        args_negative_rate_def map_add_def t_eval_entry_def linspace_def py_int_def)
  have "fst (run_model (\<lambda>kv. Inr ''integrated'') [DEFAULT_PARAMETERS, map_of [(''Nx'', VInt (- 1))]] 0 1)
     = Inl ValueError"
    using run_model_failures [OF m g n, of "- 1" "\<lambda>kv. Inr ''integrated''"] by simp
  moreover have "fst (run_model (\<lambda>kv. Inr ''integrated'') [DEFAULT_PARAMETERS, map_of [(''Nx'', VInt 1)]] 0 1)
     = Inl IndexError"
    using run_model_failures [OF m g n, of 1 "\<lambda>kv. Inr ''integrated''"] by simp
  moreover have "fst (run_model (\<lambda>kv. Inr ''integrated'') [DEFAULT_PARAMETERS, args_invalid] 0 1)
     = Inr (''integrated'', 3)"
    using run_model_failures [OF m gi(1,2,3), of "\<lambda>kv. Inr ''integrated''"] by (simp add: gi(4))
  moreover have "fst (run_model (\<lambda>kv. Inr ''integrated'')
        [DEFAULT_PARAMETERS, args_negative_rate] 0 1)
     = Inl ValueError"
    using run_model_failures [OF m g [OF np(3,4)] np(1), of "\<lambda>kv. Inr ''integrated''"]
    by (simp add: np(2))
  ultimately show ?thesis by blast
qed

text \<open>
  Claim C10. \<^verbatim>\<open>run_model\<close> mutates neither the global \<^verbatim>\<open>DEFAULT_PARAMETERS\<close> nor the
  caller's dict: after the call, whether it returns or raises, both hold the entries they
  held before, as does every dict that existed before the call. The merged dict and
  \<^verbatim>\<open>kvals\<close> are new objects, and the two assignments go to \<^verbatim>\<open>kvals\<close>.
\<close>

theorem run_model_frame:
  assumes "d < length h" "args < length h"
  shows "snd (run_model solve_ivp h d args) ! d = h ! d
       \<and> snd (run_model solve_ivp h d args) ! args = h ! args
       \<and> take (length h) (snd (run_model solve_ivp h d args)) = h"
proof -
  obtain ext where e: "snd (run_model solve_ivp h d args) = h @ ext"
    using run_model_extends by blast
  show ?thesis unfolding e using assms by (simp add: nth_append)
qed

theorem run_model_frame_witness:
  "snd (run_model (\<lambda>kv. Inr ''integrated'') [DEFAULT_PARAMETERS, args_small] 0 1) ! 0 = DEFAULT_PARAMETERS
   \<and> snd (run_model (\<lambda>kv. Inr ''integrated'') [DEFAULT_PARAMETERS, args_small] 0 1) ! 1 = args_small"
  using run_model_frame [of 0 "[DEFAULT_PARAMETERS, args_small]" 1 "\<lambda>kv. Inr ''integrated''"]
  by simp

end
